theory Spec2Isabelle
  imports Complex_Main "HOL-Library.Log_Nat"
begin

section \<open>The notebook \<open>log_precision.ipynb\<close>\<close>

text \<open>
  The notebook has one setup cell and three probe cells. Each probe cell runs the loop
  \<^verbatim>\<open>
  power = 0
  no_error = True
  while no_error:
      x = X ** power
      <take the log of x; on failure: no_error = False; print(... power ...)>
      power -= 1
  \<close>
  for \<open>math.log\<close>, \<open>np.log\<close> and \<open>Decimal.ln\<close>. The first two detect failure with a
  bare \<open>try/except\<close>, the third with the test \<open>y == Decimal("-Infinity")\<close>.

  The library functions the cells call (\<open>int.__pow__\<close>, \<open>math.log\<close>, \<open>np.log\<close>,
  \<open>warnings.filterwarnings\<close>, \<open>Decimal.__pow__\<close>, \<open>Decimal.ln\<close>) are modelled after
  CPython 3.6 and the General Decimal Arithmetic rules it implements. A Python \<open>float\<close>
  is an IEEE 754 binary64 number, represented by its exact rational value; the sign of
  zero is not kept. The C library's \<open>pow\<close> is taken to be correctly rounded (round to
  nearest, ties to even). The digits that \<open>log\<close> returns for a positive finite argument
  are not computed: they are the parameter \<open>flog\<close> (binary64) and \<open>ln_digits\<close> (decimal).
\<close>

subsection \<open>Exceptions\<close>

datatype signal =
    Clamped | DivisionByZero | Inexact | InvalidOperation
  | Overflow | Rounded | Subnormal | Underflow

datatype py_exception =
    ValueError string
  | OverflowError string
  | ZeroDivisionError string
  | TypeError string
  | RuntimeWarning string
  | DecimalException signal
  | KeyboardInterrupt

subsection \<open>binary64 floats\<close>

datatype double = Float rat | FloatInf bool | FloatNaN

text \<open>A Python number as the float cells see it: \<open>10 ** 0\<close> is the \<open>int\<close> 1, and
  \<open>10 ** power\<close> for a negative power is a \<open>float\<close>.\<close>

datatype num = PyInt int | PyFloat double

text \<open>\<open>binade q\<close> is the exponent \<open>e\<close> with \<open>2^e \<le> |q| < 2^(e+1)\<close>, for \<open>q \<noteq> 0\<close>.\<close>

definition binade :: "rat \<Rightarrow> int" where
  "binade q =
     (let n = fst (quotient_of \<bar>q\<bar>); d = snd (quotient_of \<bar>q\<bar>);
          k = bitlen n - bitlen d
      in if \<bar>q\<bar> < 2 powi k then k - 1 else k)"

definition round_half_even :: "rat \<Rightarrow> int" where
  "round_half_even r =
     (let f = \<lfloor>r\<rfloor>; d = r - of_int f
      in if d < 1 / 2 then f
         else if 1 / 2 < d then f + 1
         else if even f then f else f + 1)"

text \<open>Rounding a rational to binary64: 53 significant bits, exponent at least \<open>-1022\<close>
  (below that the spacing stays \<open>2^-1074\<close>, the subnormal range), infinity from
  \<open>2^1024\<close> on.\<close>

definition round_double :: "rat \<Rightarrow> double" where
  "round_double q =
     (if q = 0 then Float 0
      else let e = max (binade q) (- 1022);
               m = round_half_even (q * 2 powi (52 - e));
               v = of_int m * 2 powi (e - 52)
           in if 2 ^ 1024 \<le> \<bar>v\<bar> then FloatInf (q < 0) else Float v)"

text \<open>\<open>float(i)\<close> for a Python \<open>int\<close> (\<open>PyLong_AsDouble\<close>).\<close>

definition float_of_int :: "int \<Rightarrow> py_exception + rat" where
  "float_of_int i =
     (case round_double (of_int i) of
        Float v \<Rightarrow> Inr v
      | _ \<Rightarrow> Inl (OverflowError ''int too large to convert to float''))"

text \<open>\<open>float_pow\<close> of CPython on two finite floats, the second one integral (the only
  call the cells make). The C library's \<open>pow\<close> is taken to return the correctly rounded
  power; a real \<open>pow\<close> may differ from it in the last bit for some bases. For base 10 the
  results used below do not depend on this: \<open>10^-323\<close> lies about 2.02 spacings above zero
  and \<open>10^-324\<close> about 0.2 spacings, so any \<open>pow\<close> with an error below 0.79 spacings
  returns a positive number for the first and zero for the second.\<close>

definition float_pow :: "rat \<Rightarrow> rat \<Rightarrow> py_exception + num" where
  "float_pow a b =
     (if b = 0 then Inr (PyFloat (Float 1))
      else if a = 0 \<and> b < 0
      then Inl (ZeroDivisionError ''0.0 cannot be raised to a negative power'')
      else (case round_double (a powi \<lfloor>b\<rfloor>) of
              Float v \<Rightarrow> Inr (PyFloat (Float v))
            | _ \<Rightarrow> Inl (OverflowError ''(34, 'Numerical result out of range')'')))"

text \<open>\<open>X ** power\<close> on Python \<open>int\<close>s: an \<open>int\<close> for a non-negative power, otherwise both
  operands are converted to \<open>float\<close> and \<open>float_pow\<close> is called.\<close>

definition int_pow :: "int \<Rightarrow> int \<Rightarrow> py_exception + num" where
  "int_pow X p =
     (if 0 \<le> p then Inr (PyInt (X ^ nat p))
      else (case float_of_int X of
              Inl ex \<Rightarrow> Inl ex
            | Inr a \<Rightarrow>
                (case float_of_int p of
                   Inl ex \<Rightarrow> Inl ex
                 | Inr b \<Rightarrow> float_pow a b)))"

text \<open>\<open>math.log(x)\<close> with one argument.\<close>

definition math_log :: "(rat \<Rightarrow> rat) \<Rightarrow> num \<Rightarrow> py_exception + double" where
  "math_log flog x =
     (case x of
        PyInt n \<Rightarrow>
          if n \<le> 0 then Inl (ValueError ''math domain error'')
          else (case float_of_int n of
                  Inr a \<Rightarrow> Inr (Float (flog a))
                | Inl _ \<Rightarrow> Inr (Float (flog (of_int n))))
      | PyFloat (Float v) \<Rightarrow>
          if 0 < v then Inr (Float (flog v)) else Inl (ValueError ''math domain error'')
      | PyFloat (FloatInf neg) \<Rightarrow>
          if neg then Inl (ValueError ''math domain error'') else Inr (FloatInf False)
      | PyFloat FloatNaN \<Rightarrow> Inr FloatNaN)"

subsection \<open>The warnings filter and \<open>np.log\<close>\<close>

datatype warn_action = Default | Error | Ignore | Always | Module | Once

record py_env =
  filters :: "warn_action list"

text \<open>\<open>warnings.filterwarnings(action)\<close> with no category puts a filter that matches
  every warning at the front of the list; the first matching filter decides.\<close>

definition filterwarnings :: "warn_action \<Rightarrow> py_env \<Rightarrow> py_env" where
  "filterwarnings a env = env\<lparr>filters := a # filters env\<rparr>"

definition action :: "py_env \<Rightarrow> warn_action" where
  "action env = (case filters env of [] \<Rightarrow> Default | a # _ \<Rightarrow> a)"

text \<open>\<open>warnings.warn(msg, RuntimeWarning)\<close> around a value that numpy goes on to return:
  under the action \<open>error\<close> the warning is raised as an exception.\<close>

definition warn :: "py_env \<Rightarrow> string \<Rightarrow> 'a \<Rightarrow> py_exception + 'a" where
  "warn env msg r = (case action env of Error \<Rightarrow> Inl (RuntimeWarning msg) | _ \<Rightarrow> Inr r)"

text \<open>The setup cell: \<open>warnings.filterwarnings("error")\<close>.\<close>

definition setup_cell :: "py_env \<Rightarrow> py_env" where
  "setup_cell env = filterwarnings Error env"

text \<open>\<open>np.log(x)\<close> on a scalar. A Python \<open>int\<close> becomes a float64 when it fits a 64-bit
  integer; a larger one has no \<open>log\<close> loop.\<close>

definition np_log_double :: "py_env \<Rightarrow> (rat \<Rightarrow> rat) \<Rightarrow> double \<Rightarrow> py_exception + double" where
  "np_log_double env flog d =
     (case d of
        Float v \<Rightarrow>
          if 0 < v then Inr (Float (flog v))
          else if v = 0 then warn env ''divide by zero encountered in log'' (FloatInf True)
          else warn env ''invalid value encountered in log'' FloatNaN
      | FloatInf neg \<Rightarrow>
          if neg then warn env ''invalid value encountered in log'' FloatNaN
          else Inr (FloatInf False)
      | FloatNaN \<Rightarrow> Inr FloatNaN)"

definition np_log :: "py_env \<Rightarrow> (rat \<Rightarrow> rat) \<Rightarrow> num \<Rightarrow> py_exception + double" where
  "np_log env flog x =
     (case x of
        PyInt n \<Rightarrow>
          if - (2 ^ 63) \<le> n \<and> n < 2 ^ 64
          then np_log_double env flog (round_double (of_int n))
          else Inl (TypeError ''loop of ufunc does not support argument 0 of type int'')
      | PyFloat d \<Rightarrow> np_log_double env flog d)"

subsection \<open>The probe loop\<close>

text \<open>The variables of a probe cell. \<open>printed\<close> holds the exponent of every message the
  cell prints (the text around it is fixed). \<open>evaluated\<close> is not a variable of the cell:
  it records, in order, the exponents at which the log function was called.\<close>

record probe_state =
  power :: int
  no_error :: bool
  printed :: "int list"
  evaluated :: "int list"

definition init :: probe_state where
  "init = \<lparr>power = 0, no_error = True, printed = [], evaluated = []\<rparr>"

text \<open>The body of the \<open>math\<close> and \<open>numpy\<close> loops. \<open>x = X ** power\<close> stands outside the
  \<open>try\<close>: an exception it raises leaves the loop. The \<open>except:\<close> clause names no
  exception type.\<close>

definition try_body ::
  "(int \<Rightarrow> 'e + 'x) \<Rightarrow> ('x \<Rightarrow> 'e + 'y) \<Rightarrow> probe_state \<Rightarrow> 'e + probe_state" where
  "try_body pw lg s =
     (case pw (power s) of
        Inl ex \<Rightarrow> Inl ex
      | Inr x \<Rightarrow>
          (let s1 = s\<lparr>evaluated := evaluated s @ [power s]\<rparr>;
               s2 = (case lg x of
                       Inr y \<Rightarrow> s1
                     | Inl ex \<Rightarrow> s1\<lparr>no_error := False, printed := printed s1 @ [power s1]\<rparr>)
           in Inr (s2\<lparr>power := power s2 - 1\<rparr>)))"

text \<open>\<open>while no_error: body\<close>. The loop may run forever: then the value is \<open>None\<close>.
  \<open>Some (Inl ex)\<close> is an exception that left the loop, \<open>Some (Inr s)\<close> the state at
  the end of the cell.\<close>

partial_function (option) while_no_error ::
  "(probe_state \<Rightarrow> 'e + probe_state) \<Rightarrow> probe_state \<Rightarrow> ('e + probe_state) option" where
  "while_no_error body s =
     (if no_error s
      then (case body s of Inl ex \<Rightarrow> Some (Inl ex) | Inr s' \<Rightarrow> while_no_error body s')
      else Some (Inr s))"

text \<open>The state after at most \<open>k\<close> passes through the loop.\<close>

fun loop_steps ::
  "nat \<Rightarrow> (probe_state \<Rightarrow> 'e + probe_state) \<Rightarrow> probe_state \<Rightarrow> 'e + probe_state" where
  "loop_steps 0 body s = Inr s"
| "loop_steps (Suc k) body s =
     (if no_error s
      then (case body s of Inl ex \<Rightarrow> Inl ex | Inr s' \<Rightarrow> loop_steps k body s')
      else Inr s)"

text \<open>The same loop as a relation between the state at its head and its outcome.\<close>

inductive probe_run ::
  "(probe_state \<Rightarrow> 'e + probe_state) \<Rightarrow> probe_state \<Rightarrow> 'e + probe_state \<Rightarrow> bool"
  for body :: "probe_state \<Rightarrow> 'e + probe_state" where
  exit_loop: "\<not> no_error s \<Longrightarrow> probe_run body s (Inr s)"
| raise_out: "no_error s \<Longrightarrow> body s = Inl ex \<Longrightarrow> probe_run body s (Inl ex)"
| iterate: "no_error s \<Longrightarrow> body s = Inr s' \<Longrightarrow> probe_run body s' r \<Longrightarrow> probe_run body s r"

text \<open>The \<open>math\<close> cell and the \<open>numpy\<close> cell, with \<open>X = 10\<close>.\<close>

definition math_cell :: "(rat \<Rightarrow> rat) \<Rightarrow> (py_exception + probe_state) option" where
  "math_cell flog = while_no_error (try_body (int_pow 10) (math_log flog)) init"

definition numpy_cell :: "py_env \<Rightarrow> (rat \<Rightarrow> rat) \<Rightarrow> (py_exception + probe_state) option" where
  "numpy_cell env flog = while_no_error (try_body (int_pow 10) (np_log env flog)) init"

subsection \<open>Decimal numbers\<close>

text \<open>A \<open>Decimal\<close>: sign, coefficient and exponent, or an infinity, or a NaN.\<close>

datatype decimal = Dec bool nat int | DecInf bool | DecNaN

text \<open>The arithmetic context. The notebook never changes it, so every operation runs in
  the module's default context; rounding is \<open>ROUND_HALF_EVEN\<close>.\<close>

record dec_context =
  prec :: nat
  Emin :: int
  Emax :: int
  traps :: "signal set"

definition DefaultContext :: dec_context where
  "DefaultContext =
     \<lparr>prec = 28, Emin = - 999999, Emax = 999999,
      traps = {InvalidOperation, DivisionByZero, Overflow}\<rparr>"

definition Etiny :: "dec_context \<Rightarrow> int" where
  "Etiny ctx = Emin ctx - int (prec ctx) + 1"

definition Etop :: "dec_context \<Rightarrow> int" where
  "Etop ctx = Emax ctx - int (prec ctx) + 1"

text \<open>Signals are raised in order; the first one the context traps becomes an
  exception, otherwise the operation returns its result.\<close>

fun raise_signals :: "dec_context \<Rightarrow> signal list \<Rightarrow> 'a \<Rightarrow> py_exception + 'a" where
  "raise_signals ctx [] r = Inr r"
| "raise_signals ctx (g # gs) r =
     (if g \<in> traps ctx then Inl (DecimalException g) else raise_signals ctx gs r)"

text \<open>The number of digits of a coefficient (\<open>len(self._int)\<close>).\<close>

fun ndigits :: "nat \<Rightarrow> nat" where
  "ndigits n = (if n < 10 then 1 else Suc (ndigits (n div 10)))"

declare ndigits.simps [simp del]

definition dec_value :: "bool \<Rightarrow> nat \<Rightarrow> int \<Rightarrow> rat" where
  "dec_value neg c e = (if neg then - 1 else 1) * of_nat c * 10 powi e"

text \<open>\<open>a == b\<close> on decimals: by value, and a NaN equals nothing.\<close>

definition dec_eq :: "decimal \<Rightarrow> decimal \<Rightarrow> bool" where
  "dec_eq a b =
     (case (a, b) of
        (Dec s c e, Dec s' c' e') \<Rightarrow> dec_value s c e = dec_value s' c' e'
      | (DecInf s, DecInf s') \<Rightarrow> s = s'
      | _ \<Rightarrow> False)"

text \<open>Dropping the last \<open>k\<close> digits of a coefficient, rounding half-even: the new
  coefficient, and whether a non-zero digit was dropped.\<close>

definition round_half_even_digits :: "nat \<Rightarrow> nat \<Rightarrow> nat \<times> bool" where
  "round_half_even_digits c k =
     (let q = c div 10 ^ k;
          r = c mod 10 ^ k;
          up = (10 ^ k < 2 * r \<or> (2 * r = 10 ^ k \<and> odd q))
      in (if up then q + 1 else q, r \<noteq> 0))"

text \<open>The rounding branch of \<open>Decimal._fix\<close>: the coefficient is cut down to the
  exponent \<open>exp_min\<close>, and the signals are raised in the order of the source.\<close>

definition dec_round ::
  "dec_context \<Rightarrow> bool \<Rightarrow> nat \<Rightarrow> int \<Rightarrow> int \<Rightarrow> bool \<Rightarrow> py_exception + decimal" where
  "dec_round ctx neg c e exp_min self_is_subnormal =
     (case round_half_even_digits c (nat (exp_min - e)) of
        (coeff, changed) \<Rightarrow>
          (let long = (prec ctx < ndigits coeff);
               coeff' = (if long then coeff div 10 else coeff);
               exp' = (if long then exp_min + 1 else exp_min);
               signals =
                 (if changed \<and> self_is_subnormal then [Underflow] else [])
                 @ (if self_is_subnormal then [Subnormal] else [])
                 @ (if changed then [Inexact] else [])
                 @ [Rounded]
           in if Etop ctx < exp'
              then raise_signals ctx (Overflow # signals) (DecInf neg)
              else raise_signals ctx
                     (signals @ (if coeff' = 0 then [Clamped] else []))
                     (Dec neg coeff' exp')))"

text \<open>\<open>Decimal._fix\<close>: round a result to the context.\<close>

definition dec_fix :: "dec_context \<Rightarrow> decimal \<Rightarrow> py_exception + decimal" where
  "dec_fix ctx d =
     (case d of
        Dec neg c e \<Rightarrow>
          if c = 0
          then (let new_exp = min (max e (Etiny ctx)) (Emax ctx)
                in if new_exp \<noteq> e then raise_signals ctx [Clamped] (Dec neg 0 new_exp)
                   else Inr d)
          else
            (let exp_min0 = int (ndigits c) + e - int (prec ctx)
             in if Etop ctx < exp_min0
                then raise_signals ctx [Overflow, Inexact, Rounded] (DecInf neg)
                else
                  (let self_is_subnormal = exp_min0 < Etiny ctx;
                       exp_min = (if self_is_subnormal then Etiny ctx else exp_min0)
                   in if e < exp_min then dec_round ctx neg c e exp_min self_is_subnormal
                      else if self_is_subnormal then raise_signals ctx [Subnormal] d
                      else Inr d))
      | _ \<Rightarrow> Inr d)"

text \<open>\<open>X ** power\<close> for \<open>X = Decimal(10)\<close> and a Python \<open>int\<close> power: the power is exact,
  \<open>1E+power\<close> (for a positive power, written with up to \<open>prec\<close> zeros), and is then
  rounded to the context.\<close>

definition decimal_ten_pow :: "dec_context \<Rightarrow> int \<Rightarrow> py_exception + decimal" where
  "decimal_ten_pow ctx p =
     (if p = 0 then Inr (Dec False 1 0)
      else if p < 0 then dec_fix ctx (Dec False 1 p)
      else (let zeros = min (nat p) (prec ctx)
            in dec_fix ctx (Dec False (10 ^ zeros) (p - int zeros))))"

text \<open>\<open>Decimal.ln\<close>. \<open>ln_digits prec c e\<close> stands for the correctly rounded digits of
  the logarithm of \<open>c * 10^e\<close>, a finite decimal.\<close>

definition decimal_ln ::
  "dec_context \<Rightarrow> (nat \<Rightarrow> nat \<Rightarrow> int \<Rightarrow> bool \<times> nat \<times> int) \<Rightarrow> decimal \<Rightarrow> py_exception + decimal" where
  "decimal_ln ctx ln_digits d =
     (case d of
        DecNaN \<Rightarrow> Inr DecNaN
      | DecInf neg \<Rightarrow>
          if neg then raise_signals ctx [InvalidOperation] DecNaN else Inr (DecInf False)
      | Dec neg c e \<Rightarrow>
          if c = 0 then Inr (DecInf True)
          else if dec_eq d (Dec False 1 0) then Inr (Dec False 0 0)
          else if neg then raise_signals ctx [InvalidOperation] DecNaN
          else (case ln_digits (prec ctx) c e of
                  (neg', c', e') \<Rightarrow> raise_signals ctx [Inexact, Rounded] (Dec neg' c' e')))"

text \<open>The body of the \<open>decimal\<close> loop: no \<open>try\<close>; the loop ends when
  \<open>y == Decimal("-Infinity")\<close>.\<close>

definition decimal_body ::
  "(int \<Rightarrow> 'e + 'x) \<Rightarrow> ('x \<Rightarrow> 'e + decimal) \<Rightarrow> probe_state \<Rightarrow> 'e + probe_state" where
  "decimal_body pw lg s =
     (case pw (power s) of
        Inl ex \<Rightarrow> Inl ex
      | Inr x \<Rightarrow>
          (case lg x of
             Inl ex \<Rightarrow> Inl ex
           | Inr y \<Rightarrow>
               (let s1 = s\<lparr>evaluated := evaluated s @ [power s]\<rparr>;
                    s2 = (if dec_eq y (DecInf True)
                          then s1\<lparr>no_error := False, printed := printed s1 @ [power s1]\<rparr>
                          else s1)
                in Inr (s2\<lparr>power := power s2 - 1\<rparr>))))"

text \<open>The \<open>decimal\<close> cell, with \<open>X = Decimal(10)\<close>, in the default context.\<close>

definition decimal_cell ::
  "(nat \<Rightarrow> nat \<Rightarrow> int \<Rightarrow> bool \<times> nat \<times> int) \<Rightarrow> (py_exception + probe_state) option" where
  "decimal_cell ln_digits =
     while_no_error
       (decimal_body (decimal_ten_pow DefaultContext) (decimal_ln DefaultContext ln_digits))
       init"

subsection \<open>What one pass of a loop does at an exponent\<close>

text \<open>The remaining definitions are not code of the notebook; the proofs are stated with
  them. A pass at an exponent either goes on (\<open>Passed\<close>), or fires the failure test of
  the loop (\<open>Failed\<close>), or lets an exception leave the loop (\<open>Aborted\<close>). Both loop
  bodies are \<open>probe_step\<close> of their verdict (lemmas \<open>try_body_step\<close> and
  \<open>decimal_body_step\<close>). \<open>running j\<close> is the state at the head of the loop after \<open>j\<close>
  passes without failure, \<open>stopped n\<close> the state after the loop when the first failure came
  at the exponent \<open>-n\<close>: the exponent printed is \<open>-n\<close>, and \<open>power\<close> has been decremented
  once more.\<close>

datatype 'e verdict = Passed | Failed | Aborted 'e

definition try_verdict :: "(int \<Rightarrow> 'e + 'x) \<Rightarrow> ('x \<Rightarrow> 'e + 'y) \<Rightarrow> int \<Rightarrow> 'e verdict" where
  "try_verdict pw lg p =
     (case pw p of
        Inl ex \<Rightarrow> Aborted ex
      | Inr x \<Rightarrow> (case lg x of Inl _ \<Rightarrow> Failed | Inr _ \<Rightarrow> Passed))"

definition decimal_verdict ::
  "(int \<Rightarrow> 'e + 'x) \<Rightarrow> ('x \<Rightarrow> 'e + decimal) \<Rightarrow> int \<Rightarrow> 'e verdict" where
  "decimal_verdict pw lg p =
     (case pw p of
        Inl ex \<Rightarrow> Aborted ex
      | Inr x \<Rightarrow>
          (case lg x of
             Inl ex \<Rightarrow> Aborted ex
           | Inr y \<Rightarrow> if dec_eq y (DecInf True) then Failed else Passed))"

definition probe_step :: "(int \<Rightarrow> 'e verdict) \<Rightarrow> probe_state \<Rightarrow> 'e + probe_state" where
  "probe_step v s =
     (case v (power s) of
        Aborted ex \<Rightarrow> Inl ex
      | Passed \<Rightarrow> Inr (s\<lparr>evaluated := evaluated s @ [power s], power := power s - 1\<rparr>)
      | Failed \<Rightarrow>
          Inr (s\<lparr>evaluated := evaluated s @ [power s], no_error := False,
                 printed := printed s @ [power s], power := power s - 1\<rparr>))"

definition running :: "nat \<Rightarrow> probe_state" where
  "running j =
     \<lparr>power = - int j, no_error = True, printed = [],
      evaluated = map (\<lambda>k. - int k) [0..<j]\<rparr>"

definition stopped :: "nat \<Rightarrow> probe_state" where
  "stopped n =
     \<lparr>power = - int n - 1, no_error = False, printed = [- int n],
      evaluated = map (\<lambda>k. - int k) [0..<Suc n]\<rparr>"

section \<open>The loop\<close>

lemma try_body_step: "try_body pw lg = probe_step (try_verdict pw lg)"
  by (rule ext) (simp add: try_body_def probe_step_def try_verdict_def Let_def split: sum.splits)

lemma decimal_body_step: "decimal_body pw lg = probe_step (decimal_verdict pw lg)"
  by (rule ext) (simp add: decimal_body_def probe_step_def decimal_verdict_def Let_def split: sum.splits)

lemma init_running: "init = running 0"
  by (simp add: init_def running_def)

lemma step_running_pass:
  "v (- int j) = Passed \<Longrightarrow> probe_step v (running j) = Inr (running (Suc j))"
  by (simp add: probe_step_def running_def)

lemma step_running_fail:
  "v (- int j) = Failed \<Longrightarrow> probe_step v (running j) = Inr (stopped j)"
  by (simp add: probe_step_def running_def stopped_def)

lemma step_running_abort:
  "v (- int j) = Aborted ex \<Longrightarrow> probe_step v (running j) = Inl ex"
  by (simp add: probe_step_def running_def)

lemma no_error_running: "no_error (running j)"
  by (simp add: running_def)

lemma no_error_stopped: "\<not> no_error (stopped j)"
  by (simp add: stopped_def)

lemma while_running_Suc:
  assumes "v (- int j) = Passed"
  shows "while_no_error (probe_step v) (running j) = while_no_error (probe_step v) (running (Suc j))"
  using step_running_pass [of v j] assms
  by (subst while_no_error.simps) (simp add: no_error_running)

lemma while_running_advance:
  "(\<And>k. k < n \<Longrightarrow> v (- int k) = Passed) \<Longrightarrow>
   while_no_error (probe_step v) (running 0) = while_no_error (probe_step v) (running n)"
proof (induction n)
  case 0
  show ?case by simp
next
  case (Suc n)
  have "while_no_error (probe_step v) (running 0) = while_no_error (probe_step v) (running n)"
    using Suc by simp
  also have "\<dots> = while_no_error (probe_step v) (running (Suc n))"
    using Suc.prems by (intro while_running_Suc) simp
  finally show ?case .
qed

lemma while_first_failure:
  assumes "\<And>k. k < n \<Longrightarrow> v (- int k) = Passed" and "v (- int n) = Failed"
  shows "while_no_error (probe_step v) init = Some (Inr (stopped n))"
proof -
  have "while_no_error (probe_step v) init = while_no_error (probe_step v) (running n)"
    unfolding init_running using assms(1) by (rule while_running_advance)
  also have "\<dots> = while_no_error (probe_step v) (stopped n)"
    using step_running_fail [of v n] assms(2)
    by (subst while_no_error.simps) (simp add: no_error_running)
  also have "\<dots> = Some (Inr (stopped n))"
    by (subst while_no_error.simps) (simp add: no_error_stopped)
  finally show ?thesis .
qed

lemma while_first_abort:
  assumes "\<And>k. k < n \<Longrightarrow> v (- int k) = Passed" and "v (- int n) = Aborted ex"
  shows "while_no_error (probe_step v) init = Some (Inl ex)"
proof -
  have "while_no_error (probe_step v) init = while_no_error (probe_step v) (running n)"
    unfolding init_running using assms(1) by (rule while_running_advance)
  also have "\<dots> = Some (Inl ex)"
    using step_running_abort [of v n ex] assms(2)
    by (subst while_no_error.simps) (simp add: no_error_running)
  finally show ?thesis .
qed

lemma while_Some_steps:
  assumes "while_no_error body s = Some r"
  shows "\<exists>k. loop_steps k body s = r \<and> (case r of Inl _ \<Rightarrow> True | Inr s' \<Rightarrow> \<not> no_error s')"
proof (rule while_no_error.raw_induct [OF _ assms])
  fix w :: "(probe_state \<Rightarrow> 'a + probe_state) \<Rightarrow> probe_state \<Rightarrow> ('a + probe_state) option"
    and body s r
  assume IH: "\<And>b t y. w b t = Some y \<Longrightarrow>
      \<exists>k. loop_steps k b t = y \<and> (case y of Inl _ \<Rightarrow> True | Inr s' \<Rightarrow> \<not> no_error s')"
    and eq: "(if no_error s
      then case body s of Inl ex \<Rightarrow> Some (Inl ex) | Inr s' \<Rightarrow> w body s'
      else Some (Inr s)) = Some r"
  show "\<exists>k. loop_steps k body s = r \<and> (case r of Inl _ \<Rightarrow> True | Inr s' \<Rightarrow> \<not> no_error s')"
  proof (cases "no_error s")
    case False
    with eq have "loop_steps 0 body s = r \<and> (case r of Inl _ \<Rightarrow> True | Inr s' \<Rightarrow> \<not> no_error s')"
      by auto
    then show ?thesis by blast
  next
    case True
    show ?thesis
    proof (cases "body s")
      case (Inl ex)
      with True eq have "loop_steps (Suc 0) body s = r \<and> (case r of Inl _ \<Rightarrow> True | Inr s' \<Rightarrow> \<not> no_error s')"
        by auto
      then show ?thesis by blast
    next
      case (Inr s')
      with True eq have "w body s' = Some r" by simp
      from IH [OF this] obtain k where
        "loop_steps k body s' = r \<and> (case r of Inl _ \<Rightarrow> True | Inr s' \<Rightarrow> \<not> no_error s')"
        by blast
      with True Inr have "loop_steps (Suc k) body s = r \<and> (case r of Inl _ \<Rightarrow> True | Inr s' \<Rightarrow> \<not> no_error s')"
        by simp
      then show ?thesis by blast
    qed
  qed
qed

lemma steps_While:
  "loop_steps k body s = r \<Longrightarrow> (case r of Inl _ \<Rightarrow> True | Inr s' \<Rightarrow> \<not> no_error s') \<Longrightarrow>
   while_no_error body s = Some r"
proof (induction k arbitrary: s)
  case 0
  then show ?case by (subst while_no_error.simps) auto
next
  case (Suc k)
  show ?case
  proof (cases "no_error s")
    case False
    with Suc.prems show ?thesis by (subst while_no_error.simps) auto
  next
    case True
    show ?thesis
    proof (cases "body s")
      case (Inl ex)
      with True Suc.prems show ?thesis by (subst while_no_error.simps) auto
    next
      case (Inr s')
      with True Suc.prems have "loop_steps k body s' = r" by simp
      from Suc.IH [OF this Suc.prems(2)] True Inr show ?thesis
        by (subst while_no_error.simps) simp
    qed
  qed
qed

lemma steps_running:
  "(\<And>k. v (- int k) = Passed) \<Longrightarrow>
   loop_steps k (probe_step v) (running j) = Inr (running (j + k))"
  by (induction k arbitrary: j) (simp_all add: no_error_running step_running_pass)

lemma while_diverges:
  assumes "\<And>k. v (- int k) = Passed"
  shows "while_no_error (probe_step v) init = None"
proof (cases "while_no_error (probe_step v) init")
  case None
  then show ?thesis .
next
  case (Some r)
  from while_Some_steps [OF this] obtain k where
    k: "loop_steps k (probe_step v) init = r"
       "(case r of Inl _ \<Rightarrow> True | Inr s' \<Rightarrow> \<not> no_error s')" by blast
  from k(1) have "r = Inr (running k)"
    using steps_running [of v k 0, OF assms] by (simp add: init_running)
  with k(2) show ?thesis by (simp add: no_error_running)
qed

lemma while_init_cases:
  assumes "while_no_error (probe_step v) init = Some r"
  shows "\<exists>n. (\<forall>k<n. v (- int k) = Passed) \<and>
           (case v (- int n) of Passed \<Rightarrow> False | Failed \<Rightarrow> r = Inr (stopped n)
            | Aborted ex \<Rightarrow> r = Inl ex)"
proof -
  have "\<exists>k. v (- int k) \<noteq> Passed"
    using while_diverges [of v] assms by fastforce
  then obtain n where n: "v (- int n) \<noteq> Passed" "\<And>k. k < n \<Longrightarrow> v (- int k) = Passed"
    using exists_least_iff [of "\<lambda>k. v (- int k) \<noteq> Passed"] by auto
  show ?thesis
  proof (cases "v (- int n)")
    case Passed
    with n show ?thesis by simp
  next
    case Failed
    from while_first_failure [of n v, OF n(2) Failed] assms n(2) Failed show ?thesis
      by (intro exI [of _ n]) simp
  next
    case (Aborted ex)
    from while_first_abort [of n v, OF n(2) Aborted] assms n(2) Aborted show ?thesis
      by (intro exI [of _ n]) simp
  qed
qed

lemma probe_run_deterministic_aux:
  "probe_run body s r \<Longrightarrow> probe_run body s r' \<Longrightarrow> r = r'"
proof (induction arbitrary: r' rule: probe_run.induct)
  case (exit_loop s)
  from exit_loop(2) exit_loop(1) show ?case by (cases rule: probe_run.cases) auto
next
  case (raise_out s ex)
  from raise_out(3) raise_out(1,2) show ?case by (cases rule: probe_run.cases) auto
next
  case (iterate s s' r)
  from iterate(5) iterate(1,2) iterate(4) show ?case by (cases rule: probe_run.cases) auto
qed

lemma probe_run_While: "probe_run body s r \<Longrightarrow> while_no_error body s = Some r"
  by (induction rule: probe_run.induct) (subst while_no_error.simps, simp)+

lemma steps_probe_run:
  "loop_steps k body s = r \<Longrightarrow> (case r of Inl _ \<Rightarrow> True | Inr s' \<Rightarrow> \<not> no_error s') \<Longrightarrow>
   probe_run body s r"
proof (induction k arbitrary: s)
  case 0
  then show ?case by (auto intro: probe_run.intros)
next
  case (Suc k)
  then show ?case
    by (cases "no_error s"; cases "body s") (auto intro: probe_run.intros)
qed

lemma While_probe_run: "while_no_error body s = Some r \<Longrightarrow> probe_run body s r"
  using while_Some_steps steps_probe_run by blast

section \<open>Rounding to binary64\<close>

lemma binade_lower:
  assumes "q \<noteq> 0"
  shows "2 powi (binade q) \<le> \<bar>q\<bar>"
proof -
  define a where "a = \<bar>q\<bar>"
  define n where "n = fst (quotient_of a)"
  define d where "d = snd (quotient_of a)"
  define k where "k = bitlen n - bitlen d"
  have a: "0 < a" using assms by (simp add: a_def)
  have qa: "quotient_of a = (n, d)" by (simp add: n_def d_def)
  have d: "0 < d" using quotient_of_denom_pos [OF qa] .
  have eq: "a = of_int n / of_int d" using quotient_of_div [OF qa] .
  have n: "0 < n"
    using a d unfolding eq by (simp add: zero_less_divide_iff)
  have bn: "1 \<le> bitlen n" using n by (simp add: bitlen_alt_def)
  have bd: "0 \<le> bitlen d" by (rule bitlen_nonneg)
  have ln: "(2::rat) ^ nat (bitlen n - 1) \<le> of_int n"
  proof -
    have "(2::int) ^ nat (bitlen n - 1) \<le> n" using bitlen_bounds [OF n] by simp
    then have "(of_int ((2::int) ^ nat (bitlen n - 1)) :: rat) \<le> of_int n"
      by (simp only: of_int_le_iff)
    then show ?thesis by simp
  qed
  have ud: "(of_int d :: rat) \<le> 2 ^ nat (bitlen d)"
  proof -
    have "d \<le> (2::int) ^ nat (bitlen d)" using bitlen_bounds [OF d] by simp
    then have "(of_int d :: rat) \<le> of_int ((2::int) ^ nat (bitlen d))"
      by (simp only: of_int_le_iff)
    then show ?thesis by simp
  qed
  have low: "(2::rat) powi (k - 1) \<le> a"
  proof -
    have "(2::rat) powi (k - 1) = 2 powi (bitlen n - 1) / 2 powi (bitlen d)"
    proof -
      have "k - 1 = (bitlen n - 1) - bitlen d" by (simp add: k_def)
      then have "(2::rat) powi (k - 1) = 2 powi ((bitlen n - 1) - bitlen d)" by (rule arg_cong)
      also have "\<dots> = 2 powi (bitlen n - 1) / 2 powi (bitlen d)"
        by (rule power_int_diff) simp
      finally show ?thesis .
    qed
    also have "\<dots> = 2 ^ nat (bitlen n - 1) / 2 ^ nat (bitlen d)"
      using bn bd by (simp add: power_int_def)
    also have "\<dots> \<le> of_int n / of_int d"
      using ln ud d n by (intro frac_le) simp_all
    finally show ?thesis by (simp add: eq)
  qed
  have "binade q = (if a < 2 powi k then k - 1 else k)"
    by (simp add: binade_def Let_def a_def n_def d_def k_def)
  then show ?thesis using low by (auto simp: a_def)
qed

lemma round_half_even_ge:
  "of_int i \<le> r \<Longrightarrow> i \<le> round_half_even r"
  by (auto simp: round_half_even_def Let_def le_floor_iff intro: order_trans [of i "\<lfloor>r\<rfloor>"])

lemma round_half_even_of_int [simp]: "round_half_even (of_int i) = i"
  by (simp add: round_half_even_def)

lemma round_half_even_small:
  "0 \<le> r \<Longrightarrow> r < 1 / 2 \<Longrightarrow> round_half_even r = 0"
proof -
  assume "0 \<le> r" "r < 1 / 2"
  then have "\<lfloor>r\<rfloor> = 0" by (simp add: floor_eq_iff)
  with \<open>r < 1 / 2\<close> show ?thesis by (simp add: round_half_even_def)
qed

lemma round_double_of_int:
  assumes "\<bar>i\<bar> < 2 ^ 53"
  shows "round_double (of_int i) = Float (of_int i)"
proof (cases "i = 0")
  case True
  then show ?thesis by (simp add: round_double_def)
next
  case False
  define q :: rat where "q = of_int i"
  define e where "e = max (binade q) (- 1022)"
  have q0: "q \<noteq> 0" using False by (simp add: q_def)
  have qb: "\<bar>q\<bar> < 2 ^ 53"
  proof -
    have "(of_int \<bar>i\<bar> :: rat) < of_int (2 ^ 53)" using assms by (simp only: of_int_less_iff)
    then show ?thesis by (simp add: q_def)
  qed
  have "(2::rat) powi binade q < 2 powi 53"
    using binade_lower [OF q0] qb by simp
  then have "binade q < 53" by (rule power_int_le_imp_less_exp [rotated]) simp_all
  then have e: "e \<le> 52" by (simp add: e_def)
  have "q * 2 powi (52 - e) = of_int (i * 2 ^ nat (52 - e))"
    using e by (simp add: q_def power_int_def)
  then have m: "round_half_even (q * 2 powi (52 - e)) = i * 2 ^ nat (52 - e)"
    by (simp only: round_half_even_of_int)
  have v: "of_int (i * 2 ^ nat (52 - e)) * 2 powi (e - 52) = q"
  proof -
    have "(2::rat) ^ nat (52 - e) = 2 powi (52 - e)" using e by (simp add: power_int_def)
    then have "of_int (i * 2 ^ nat (52 - e)) * 2 powi (e - 52) = q * (2 powi (52 - e) * 2 powi (e - 52))"
      by (simp add: q_def)
    also have "(2::rat) powi (52 - e) * 2 powi (e - 52) = 1"
      by (simp flip: power_int_add)
    finally show ?thesis by simp
  qed
  have "\<not> 2 ^ 1024 \<le> \<bar>q\<bar>" using qb by simp
  then show ?thesis
    using q0 m v unfolding round_double_def Let_def e_def [symmetric] q_def [symmetric]
    by simp
qed

lemma subnormal_scale: "(1::rat) \<le> 10 powi (- 323) * 2 powi 1074"
  by (simp add: power_int_minus field_simps)

lemma round_double_positive:
  assumes low: "10 powi (- 323) \<le> q" and high: "q \<le> 1"
  shows "\<exists>v. 0 < v \<and> round_double q = Float v"
proof -
  define c :: rat where "c = 10 powi (- 323)"
  define t :: rat where "t = 2 powi 1074"
  define e where "e = max (binade q) (- 1022)"
  define m where "m = round_half_even (q * 2 powi (52 - e))"
  have ct: "1 \<le> c * t" unfolding c_def t_def by (rule subnormal_scale)
  have cpos: "0 < c" unfolding c_def by (simp only: zero_less_power_int zero_less_numeral)
  have tpos: "0 \<le> t" unfolding t_def by (simp only: zero_le_power_int zero_le_numeral)
  have cq: "c \<le> q" using low by (simp only: c_def)
  have q0: "0 < q" using cpos cq by (rule less_le_trans)
  have bl: "2 powi (binade q) \<le> q" using binade_lower [of q] q0 by simp
  have "(2::rat) powi (binade q) \<le> 2 powi 0" using bl high by simp
  then have b0: "binade q \<le> 0" by (rule power_int_le_imp_le_exp [rotated]) simp_all
  then have e0: "e \<le> 0" by (simp add: e_def)
  have one: "1 \<le> q * 2 powi (52 - e)"
  proof (cases "binade q \<le> - 1022")
    case True
    then have "52 - e = 1074" by (simp add: e_def)
    then have "(2::rat) powi (52 - e) = t" by (simp only: t_def)
    moreover have "c * t \<le> q * t" using cq tpos by (rule mult_right_mono)
    ultimately show ?thesis using ct by (simp only: order_trans)
  next
    case False
    then have e: "e = binade q" by (simp add: e_def)
    have "(1::rat) \<le> 2 powi 52" by simp
    also have "\<dots> = 2 powi e * 2 powi (52 - e)" by (simp flip: power_int_add)
    also have "\<dots> \<le> q * 2 powi (52 - e)"
      using bl unfolding e by (intro mult_right_mono) simp_all
    finally show ?thesis .
  qed
  then have m1: "1 \<le> m" unfolding m_def by (intro round_half_even_ge) simp
  have up: "of_int m \<le> q * 2 powi (52 - e) + 1"
  proof -
    have "m \<le> \<lfloor>q * 2 powi (52 - e)\<rfloor> + 1"
      unfolding m_def round_half_even_def Let_def by simp
    then have "(of_int m :: rat) \<le> of_int (\<lfloor>q * 2 powi (52 - e)\<rfloor> + 1)"
      by (simp only: of_int_le_iff)
    also have "\<dots> \<le> q * 2 powi (52 - e) + 1" by simp
    finally show ?thesis .
  qed
  define v :: rat where "v = of_int m * 2 powi (e - 52)"
  have vpos: "0 < v" using m1 by (simp add: v_def)
  have "v \<le> (q * 2 powi (52 - e) + 1) * 2 powi (e - 52)"
    unfolding v_def using up by (intro mult_right_mono) simp_all
  also have "\<dots> = q * (2 powi (52 - e) * 2 powi (e - 52)) + 2 powi (e - 52)"
    by (simp add: algebra_simps)
  also have "(2::rat) powi (52 - e) * 2 powi (e - 52) = 1" by (simp flip: power_int_add)
  also have "q * 1 + 2 powi (e - 52) \<le> 1 + 2 powi 0"
    using high e0 by (intro add_mono power_int_increasing) simp_all
  finally have v2: "v \<le> 2" by simp
  have "(2::rat) < 2 ^ 1024" by simp
  with v2 have "v < 2 ^ 1024" by (rule le_less_trans)
  with vpos have "\<not> 2 ^ 1024 \<le> \<bar>v\<bar>" by (simp only: abs_of_pos not_le)
  then have "round_double q = Float v"
    using q0 unfolding round_double_def Let_def e_def [symmetric] m_def [symmetric] v_def [symmetric]
    by (simp only: if_False) simp
  with vpos show ?thesis by blast
qed

lemma round_double_tiny:
  assumes "0 < q" and "q < 2 powi (- 1075)"
  shows "round_double q = Float 0"
proof -
  have bl: "2 powi (binade q) \<le> q" using binade_lower [of q] assms(1) by simp
  then have "(2::rat) powi (binade q) < 2 powi (- 1075)" using assms(2) by simp
  then have "binade q < - 1075"
    using power_int_increasing [of "- 1075" "binade q" "2::rat"] by (cases "binade q < - 1075") auto
  then have e: "max (binade q) (- 1022) = - 1022" by simp
  have "q * 2 powi 1074 < 2 powi (- 1075) * 2 powi 1074"
    using assms(2) by (intro mult_strict_right_mono) simp_all
  also have "\<dots> = 1 / 2" by (simp add: power_int_minus field_simps)
  finally have "round_half_even (q * 2 powi 1074) = 0"
    using assms(1) by (intro round_half_even_small) simp_all
  then show ?thesis using assms(1) e by (simp add: round_double_def Let_def)
qed

lemma float_of_int_exact: "\<bar>i\<bar> < 2 ^ 53 \<Longrightarrow> float_of_int i = Inr (of_int i)"
  by (simp add: float_of_int_def round_double_of_int)

lemma int_pow_10_zero: "int_pow 10 0 = Inr (PyInt 1)"
  by (simp add: int_pow_def)

lemma int_pow_10_neg:
  assumes "0 < k" and "int k < 2 ^ 53"
  shows "int_pow 10 (- int k) =
    (case round_double (10 powi (- int k)) of
       Float v \<Rightarrow> Inr (PyFloat (Float v))
     | _ \<Rightarrow> Inl (OverflowError ''(34, 'Numerical result out of range')''))"
proof -
  have a: "float_of_int 10 = Inr 10"
    using float_of_int_exact [of 10] by simp
  have b: "float_of_int (- int k) = Inr (- of_int (int k))"
    using float_of_int_exact [of "- int k"] assms(2) by simp
  have c: "\<lfloor>- rat_of_int (int k)\<rfloor> = - int k"
    by (simp only: of_int_minus [symmetric] floor_of_int)
  have d: "- rat_of_int (int k) \<noteq> 0" using assms(1) by simp
  have "float_pow 10 (- of_int (int k)) =
    (case round_double (10 powi (- int k)) of
       Float v \<Rightarrow> Inr (PyFloat (Float v))
     | _ \<Rightarrow> Inl (OverflowError ''(34, 'Numerical result out of range')''))"
    unfolding float_pow_def c using d by simp
  then show ?thesis
    using assms(1) by (simp add: int_pow_def a b)
qed

lemma tiny_scale: "(10::rat) powi (- 324) < 2 powi (- 1075)"
  by (simp add: power_int_minus field_simps)

lemma int_pow_10_range:
  assumes "0 < k" and "k < 324"
  shows "\<exists>v. 0 < v \<and> int_pow 10 (- int k) = Inr (PyFloat (Float v))"
proof -
  have "- 323 \<le> - int k" using assms(2) by simp
  then have low: "(10::rat) powi (- 323) \<le> 10 powi (- int k)"
    by (rule power_int_increasing) simp
  have "(10::rat) powi (- int k) \<le> 10 powi 0"
    by (rule power_int_increasing) simp_all
  then have high: "(10::rat) powi (- int k) \<le> 1" by simp
  from round_double_positive [OF low high] obtain v where
    v: "0 < v" "round_double (10 powi (- int k)) = Float v" by blast
  have "int k < 2 ^ 53" using assms(2) by simp
  from int_pow_10_neg [OF assms(1) this] v show ?thesis by simp
qed

lemma int_pow_10_324: "int_pow 10 (- int 324) = Inr (PyFloat (Float 0))"
proof -
  have "(0::rat) < 10 powi (- 324)" by (simp only: zero_less_power_int zero_less_numeral)
  from round_double_tiny [OF this tiny_scale]
  have r: "round_double (10 powi (- int 324)) = Float 0" by simp
  have "int_pow 10 (- int 324) =
    (case round_double (10 powi (- int 324)) of
       Float v \<Rightarrow> Inr (PyFloat (Float v))
     | _ \<Rightarrow> Inl (OverflowError ''(34, 'Numerical result out of range')''))"
    by (rule int_pow_10_neg) simp_all
  then show ?thesis by (simp only: r double.case)
qed

lemma math_verdict_pass:
  assumes "k < 324"
  shows "try_verdict (int_pow 10) (math_log flog) (- int k) = Passed"
proof (cases "k = 0")
  case True
  have "float_of_int 1 = Inr 1" using float_of_int_exact [of 1] by simp
  then show ?thesis using True by (simp add: try_verdict_def int_pow_10_zero math_log_def)
next
  case False
  then have "0 < k" by simp
  from int_pow_10_range [OF this assms] obtain v where
    "0 < v" "int_pow 10 (- int k) = Inr (PyFloat (Float v))" by blast
  then show ?thesis by (simp add: try_verdict_def math_log_def)
qed

lemma math_verdict_fail:
  "try_verdict (int_pow 10) (math_log flog) (- int 324) = Failed"
  by (simp only: try_verdict_def int_pow_10_324) (simp add: math_log_def)

lemma numpy_verdict_pass:
  assumes "k < 324"
  shows "try_verdict (int_pow 10) (np_log env flog) (- int k) = Passed"
proof (cases "k = 0")
  case True
  have "round_double 1 = Float 1" using round_double_of_int [of 1] by simp
  then show ?thesis
    using True by (simp add: try_verdict_def int_pow_10_zero np_log_def np_log_double_def)
next
  case False
  then have "0 < k" by simp
  from int_pow_10_range [OF this assms] obtain v where
    "0 < v" "int_pow 10 (- int k) = Inr (PyFloat (Float v))" by blast
  then show ?thesis by (simp add: try_verdict_def np_log_def np_log_double_def)
qed

lemma numpy_verdict_fail:
  assumes "action env = Error"
  shows "try_verdict (int_pow 10) (np_log env flog) (- int 324) = Failed"
  using assms by (simp only: try_verdict_def int_pow_10_324)
    (simp add: np_log_def np_log_double_def warn_def)

lemma action_setup_cell: "action (setup_cell env) = Error"
  by (simp add: setup_cell_def filterwarnings_def action_def)

section \<open>Decimal arithmetic in the default context\<close>

lemma ndigits_small: "n < 10 \<Longrightarrow> ndigits n = 1"
  by (simp add: ndigits.simps)

lemma Etiny_Default: "Etiny DefaultContext = - 1000026"
  by (simp add: Etiny_def DefaultContext_def)

lemma Etop_Default: "Etop DefaultContext = 999972"
  by (simp add: Etop_def DefaultContext_def)

lemma fields_Default:
  "prec DefaultContext = 28" "Emin DefaultContext = - 999999" "Emax DefaultContext = 999999"
  "traps DefaultContext = {InvalidOperation, DivisionByZero, Overflow}"
  by (simp_all add: DefaultContext_def)

lemma untrapped_Default:
  "g \<notin> {InvalidOperation, DivisionByZero, Overflow} \<Longrightarrow> g \<notin> traps DefaultContext"
  by (simp add: DefaultContext_def)

lemma ten_pow_exact:
  assumes "- 1000027 < p" and "p \<le> 0"
  shows "decimal_ten_pow DefaultContext p = Inr (Dec False 1 p)"
proof (cases "p = 0")
  case True
  then show ?thesis by (simp add: decimal_ten_pow_def)
next
  case False
  with assms have "p < 0" by simp
  then have "decimal_ten_pow DefaultContext p = dec_fix DefaultContext (Dec False 1 p)"
    by (simp add: decimal_ten_pow_def)
  also have "\<dots> = Inr (Dec False 1 p)"
    using assms
    by (simp add: dec_fix_def Let_def ndigits_small Etiny_Default Etop_Default untrapped_Default
        fields_Default)
  finally show ?thesis .
qed

lemma raise_signals_untrapped:
  "set gs \<inter> traps ctx = {} \<Longrightarrow> raise_signals ctx gs r = Inr r"
  by (induction gs) auto

lemma round_one_away:
  assumes "0 < k"
  shows "round_half_even_digits 1 k = (0, True)"
proof -
  have big: "(1::nat) < 10 ^ k" using assms by (intro one_less_power) simp_all
  from big assms have q: "(1::nat) div 10 ^ k = 0" and r: "(1::nat) mod 10 ^ k = 1" by simp_all
  have "(10::nat) ^ 1 \<le> 10 ^ k" using assms by (intro power_increasing) simp_all
  then have two: "\<not> (10::nat) ^ k < 2" "(2::nat) \<noteq> 10 ^ k" by simp_all
  show ?thesis
    unfolding round_half_even_digits_def Let_def q r using two by simp
qed

lemma dec_round_underflow:
  assumes "p < - 1000026"
  shows "dec_round DefaultContext False 1 p (- 1000026) True = Inr (Dec False 0 (- 1000026))"
proof -
  have "0 < nat (- 1000026 - p)" using assms by simp
  then have "round_half_even_digits 1 (nat (- 1000026 - p)) = (0, True)" by (rule round_one_away)
  moreover have "raise_signals DefaultContext [Underflow, Subnormal, Inexact, Rounded, Clamped] r
    = Inr r" for r :: decimal
    by (rule raise_signals_untrapped) (simp add: fields_Default)
  ultimately show ?thesis
    by (simp add: dec_round_def ndigits_small Etop_Default fields_Default)
qed

lemma ten_pow_underflow:
  assumes "p \<le> - 1000027"
  shows "decimal_ten_pow DefaultContext p = Inr (Dec False 0 (- 1000026))"
proof -
  have "decimal_ten_pow DefaultContext p = dec_fix DefaultContext (Dec False 1 p)"
    using assms by (simp add: decimal_ten_pow_def)
  also have "\<dots> = dec_round DefaultContext False 1 p (- 1000026) True"
    using assms
    by (simp add: dec_fix_def Let_def ndigits_small Etiny_Default Etop_Default fields_Default)
  also have "\<dots> = Inr (Dec False 0 (- 1000026))"
    using assms by (intro dec_round_underflow) simp
  finally show ?thesis .
qed

lemma ln_positive:
  assumes "0 < c"
  shows "\<exists>neg' c' e'. decimal_ln DefaultContext L (Dec False c e) = Inr (Dec neg' c' e')"
proof (cases "dec_eq (Dec False c e) (Dec False 1 0)")
  case True
  then have "decimal_ln DefaultContext L (Dec False c e) = Inr (Dec False 0 0)"
    using assms by (simp add: decimal_ln_def)
  then show ?thesis by blast
next
  case False
  obtain neg' c' e' where L: "L 28 c e = (neg', c', e')" by (cases "L 28 c e")
  have "raise_signals DefaultContext [Inexact, Rounded] (Dec neg' c' e') = Inr (Dec neg' c' e')"
    by (rule raise_signals_untrapped) (simp add: fields_Default)
  then have "decimal_ln DefaultContext L (Dec False c e) = Inr (Dec neg' c' e')"
    using assms False L by (simp add: decimal_ln_def fields_Default)
  then show ?thesis by blast
qed

lemma ln_zero: "decimal_ln ctx L (Dec neg 0 e) = Inr (DecInf True)"
  by (simp add: decimal_ln_def)

lemma dec_eq_sentinel: "dec_eq y (DecInf True) \<longleftrightarrow> y = DecInf True"
  by (cases y) (simp_all add: dec_eq_def)

lemma decimal_verdict_pass:
  assumes "k < 1000027"
  shows "decimal_verdict (decimal_ten_pow DefaultContext) (decimal_ln DefaultContext L) (- int k)
    = Passed"
proof -
  have "- 1000027 < - int k" "- int k \<le> 0" using assms by simp_all
  then have x: "decimal_ten_pow DefaultContext (- int k) = Inr (Dec False 1 (- int k))"
    by (rule ten_pow_exact)
  obtain neg' c' e' where
    y: "decimal_ln DefaultContext L (Dec False 1 (- int k)) = Inr (Dec neg' c' e')"
    using ln_positive [of 1 L "- int k"] by auto
  show ?thesis
    unfolding decimal_verdict_def x sum.case y by (simp add: dec_eq_sentinel)
qed

lemma decimal_verdict_fail:
  assumes "1000027 \<le> k"
  shows "decimal_verdict (decimal_ten_pow DefaultContext) (decimal_ln DefaultContext L) (- int k)
    = Failed"
proof -
  have "- int k \<le> - 1000027" using assms by simp
  then have "decimal_ten_pow DefaultContext (- int k) = Inr (Dec False 0 (- 1000026))"
    by (rule ten_pow_underflow)
  then show ?thesis
    by (simp add: decimal_verdict_def ln_zero dec_eq_sentinel)
qed

section \<open>The three cells\<close>

lemma stopped_324:
  "stopped 324 = \<lparr>power = - 325, no_error = False, printed = [- 324],
     evaluated = map (\<lambda>k. - int k) [0..<325]\<rparr>"
  by (simp add: stopped_def)

lemma stopped_1000027:
  "stopped 1000027 = \<lparr>power = - 1000028, no_error = False, printed = [- 1000027],
     evaluated = map (\<lambda>k. - int k) [0..<1000028]\<rparr>"
  by (simp add: stopped_def)

lemma math_cell_stopped: "math_cell flog = Some (Inr (stopped 324))"
  unfolding math_cell_def try_body_step
  using math_verdict_pass math_verdict_fail by (rule while_first_failure)

lemma numpy_cell_stopped:
  "action env = Error \<Longrightarrow> numpy_cell env flog = Some (Inr (stopped 324))"
  unfolding numpy_cell_def try_body_step
  using numpy_verdict_pass numpy_verdict_fail by (rule while_first_failure)

lemma decimal_cell_stopped: "decimal_cell L = Some (Inr (stopped 1000027))"
  unfolding decimal_cell_def decimal_body_step
  using decimal_verdict_pass decimal_verdict_fail [OF order_refl] by (rule while_first_failure)

lemma float_log_succeeds:
  assumes "k < 324"
  shows "\<exists>x y. int_pow 10 (- int k) = Inr x \<and> math_log flog x = Inr (Float y)
    \<and> np_log env flog x = Inr (Float y)"
proof (cases "k = 0")
  case True
  have "round_double 1 = Float 1" using round_double_of_int [of 1] by simp
  moreover have "float_of_int 1 = Inr 1" using float_of_int_exact [of 1] by simp
  ultimately show ?thesis
    using True by (simp add: int_pow_10_zero math_log_def np_log_def np_log_double_def)
next
  case False
  then have "0 < k" by simp
  from int_pow_10_range [OF this assms] obtain v where
    "0 < v" "int_pow 10 (- int k) = Inr (PyFloat (Float v))" by blast
  then show ?thesis by (simp add: math_log_def np_log_def np_log_double_def)
qed

lemma float_log_fails:
  assumes "action env = Error"
  shows "int_pow 10 (- 324) = Inr (PyFloat (Float 0))
    \<and> math_log flog (PyFloat (Float 0)) = Inl (ValueError ''math domain error'')
    \<and> np_log env flog (PyFloat (Float 0))
        = Inl (RuntimeWarning ''divide by zero encountered in log'')"
  using int_pow_10_324 assms by (simp add: math_log_def np_log_def np_log_double_def warn_def)

lemma decimal_ln_succeeds:
  assumes "k < 1000027"
  shows "\<exists>x neg c e'. decimal_ten_pow DefaultContext (- int k) = Inr x
    \<and> decimal_ln DefaultContext L x = Inr (Dec neg c e')"
proof -
  have "- 1000027 < - int k" "- int k \<le> 0" using assms by simp_all
  then have "decimal_ten_pow DefaultContext (- int k) = Inr (Dec False 1 (- int k))"
    by (rule ten_pow_exact)
  with ln_positive [of 1 L "- int k"] show ?thesis by auto
qed

lemma decimal_ln_fails:
  "decimal_ten_pow DefaultContext (- 1000027) = Inr (Dec False 0 (- 1000026))
   \<and> decimal_ln DefaultContext L (Dec False 0 (- 1000026)) = Inr (DecInf True)"
  using ten_pow_underflow [of "- 1000027"] by (simp add: ln_zero)







lemma printed_stopped: "printed (stopped n) = [- int n]"
  by (simp add: stopped_def)

lemma probe_step_evaluated:
  assumes "probe_step v s = Inr s'"
    and "evaluated s = map (\<lambda>i. - int i) [0..<m]" and "power s = - int m"
  shows "evaluated s' = map (\<lambda>i. - int i) [0..<Suc m] \<and> power s' = - int (Suc m)"
  using assms by (auto simp: probe_step_def split: verdict.splits)

lemma loop_steps_evaluated:
  assumes "loop_steps k (probe_step v) s = Inr s'"
    and "evaluated s = map (\<lambda>i. - int i) [0..<m]" and "power s = - int m"
  shows "\<exists>m'. evaluated s' = map (\<lambda>i. - int i) [0..<m'] \<and> power s' = - int m'"
  using assms
proof (induction k arbitrary: s m)
  case 0
  then show ?case by auto
next
  case (Suc k)
  show ?case
  proof (cases "no_error s")
    case False
    with Suc.prems show ?thesis by auto
  next
    case True
    with Suc.prems(1) obtain t where t: "probe_step v s = Inr t" "loop_steps k (probe_step v) t = Inr s'"
      by (cases "probe_step v s") simp_all
    from probe_step_evaluated [OF t(1) Suc.prems(2,3)] Suc.IH [OF t(2)] show ?thesis by blast
  qed
qed

lemma loop_steps_init_evaluated:
  "loop_steps k (probe_step v) init = Inr s \<Longrightarrow>
   \<exists>m. evaluated s = map (\<lambda>i. - int i) [0..<m]"
  using loop_steps_evaluated [of k v init s 0] by (auto simp: init_def)

lemma while_init_evaluated:
  assumes "while_no_error (probe_step v) init = Some (Inr s)"
  shows "\<exists>m. evaluated s = map (\<lambda>i. - int i) [0..<m]"
proof -
  from while_Some_steps [OF assms] obtain k where "loop_steps k (probe_step v) init = Inr s"
    by blast
  then show ?thesis by (rule loop_steps_init_evaluated)
qed

lemma descending_facts:
  assumes "xs = map (\<lambda>i. - int i) [0..<m]"
  shows "distinct xs"
    and "\<forall>i. Suc i < length xs \<longrightarrow> xs ! Suc i = xs ! i - 1"
    and "xs \<noteq> [] \<longrightarrow> xs ! 0 = 0"
proof -
  show "distinct xs"
    unfolding assms by (simp add: distinct_map inj_on_def)
  show "\<forall>i. Suc i < length xs \<longrightarrow> xs ! Suc i = xs ! i - 1"
    unfolding assms by simp
  show "xs \<noteq> [] \<longrightarrow> xs ! 0 = 0"
    unfolding assms by (cases m) (simp_all add: upt_rec)
qed

lemma try_body_Inl: "try_body pw lg s = Inl ex \<Longrightarrow> pw (power s) = Inl ex"
  by (auto simp: try_body_def Let_def split: sum.splits)

lemma loop_steps_try_Inl:
  "loop_steps k (try_body pw lg) s = Inl ex \<Longrightarrow> \<exists>p. pw p = Inl ex"
proof (induction k arbitrary: s)
  case 0
  then show ?case by simp
next
  case (Suc k)
  show ?case
  proof (cases "no_error s")
    case False
    with Suc.prems show ?thesis by simp
  next
    case True
    show ?thesis
    proof (cases "try_body pw lg s")
      case (Inl a)
      with True Suc.prems have "a = ex" by simp
      with try_body_Inl [OF Inl] show ?thesis by blast
    next
      case (Inr t)
      with True Suc.prems have "loop_steps k (try_body pw lg) t = Inl ex" by simp
      then show ?thesis by (rule Suc.IH)
    qed
  qed
qed

lemma try_body_caught:
  assumes "pw (power s) = Inr x" and "lg x = Inl ex"
  shows "try_body pw lg s =
    Inr (s\<lparr>evaluated := evaluated s @ [power s], no_error := False,
           printed := printed s @ [power s], power := power s - 1\<rparr>)"
  using assms by (simp add: try_body_def)

lemma int_pow_0_minus_1:
  "int_pow 0 (- 1) = Inl (ZeroDivisionError ''0.0 cannot be raised to a negative power'')"
proof -
  have "float_of_int 0 = Inr 0" using float_of_int_exact [of 0] by simp
  moreover have "float_of_int (- 1) = Inr (- 1)" using float_of_int_exact [of "- 1"] by simp
  ultimately show ?thesis by (simp add: int_pow_def float_pow_def)
qed

lemma ten_pow_ln_total:
  assumes "p \<le> 0"
  shows "\<exists>x y. decimal_ten_pow DefaultContext p = Inr x \<and> decimal_ln DefaultContext L x = Inr y
    \<and> (dec_eq y (DecInf True) \<longleftrightarrow> x = Dec False 0 (- 1000026))
    \<and> (x = Dec False 0 (- 1000026) \<longleftrightarrow> p \<le> - 1000027)"
proof (cases "p \<le> - 1000027")
  case True
  then have "decimal_ten_pow DefaultContext p = Inr (Dec False 0 (- 1000026))"
    by (rule ten_pow_underflow)
  with True ln_zero [of DefaultContext L False "- 1000026"] show ?thesis
    by (simp add: dec_eq_sentinel)
next
  case False
  with assms have x: "decimal_ten_pow DefaultContext p = Inr (Dec False 1 p)"
    by (intro ten_pow_exact) simp_all
  from ln_positive [of 1 L p] obtain neg' c' e' where
    "decimal_ln DefaultContext L (Dec False 1 p) = Inr (Dec neg' c' e')" by auto
  with x False show ?thesis by (simp add: dec_eq_sentinel)
qed

lemma decimal_loop_needs_sentinel:
  assumes "\<And>p. p \<le> 0 \<Longrightarrow> \<exists>x y. pd p = Inr x \<and> ld x = Inr y \<and> \<not> dec_eq y (DecInf True)"
  shows "while_no_error (decimal_body pd ld) init = None"
  unfolding decimal_body_step
proof (rule while_diverges)
  fix k
  have "- int k \<le> 0" by simp
  from assms [OF this] show "decimal_verdict pd ld (- int k) = Passed"
    by (auto simp: decimal_verdict_def)
qed

lemma while_init_Inr:
  fixes v :: "int \<Rightarrow> 'e verdict"
  assumes "while_no_error (probe_step v) init = Some (Inr s)"
  shows "\<exists>n. (\<forall>k<n. v (- int k) = Passed) \<and> v (- int n) = Failed \<and> s = stopped n"
proof -
  from while_init_cases [OF assms] obtain n where
    p: "\<forall>k<n. v (- int k) = Passed"
    and c: "case v (- int n) of Passed \<Rightarrow> False
            | Failed \<Rightarrow> (Inr s :: 'e + probe_state) = Inr (stopped n)
            | Aborted ex \<Rightarrow> (Inr s :: 'e + probe_state) = Inl ex"
    by blast
  show ?thesis
  proof (cases "v (- int n)")
    case Passed
    with c show ?thesis by simp
  next
    case Failed
    with c have "s = stopped n" by simp
    with p Failed show ?thesis by blast
  next
    case (Aborted ex)
    with c show ?thesis by simp
  qed
qed

lemma power_stopped: "power (stopped n) + 1 = - int n"
  by (simp add: stopped_def)

lemma decimal_loop_exit:
  assumes "while_no_error (decimal_body pd ld) init = Some (Inr s)"
  shows "\<exists>x y. pd (power s + 1) = Inr x \<and> ld x = Inr y \<and> dec_eq y (DecInf True)"
proof -
  from while_init_Inr [OF assms [unfolded decimal_body_step]] obtain n where
    f: "decimal_verdict pd ld (- int n) = Failed" and s: "s = stopped n"
    by blast
  from f have "\<exists>x y. pd (- int n) = Inr x \<and> ld x = Inr y \<and> dec_eq y (DecInf True)"
    by (auto simp: decimal_verdict_def split: sum.splits if_splits)
  then show ?thesis unfolding s power_stopped .
qed

lemma steps_running_bounded:
  "(\<And>k. k < j + n \<Longrightarrow> v (- int k) = Passed) \<Longrightarrow>
   loop_steps n (probe_step v) (running j) = Inr (running (j + n))"
proof (induction n arbitrary: j)
  case 0
  show ?case by simp
next
  case (Suc n)
  have "v (- int j) = Passed" using Suc.prems [of j] by simp
  then have "loop_steps (Suc n) (probe_step v) (running j)
    = loop_steps n (probe_step v) (running (Suc j))"
    by (simp add: no_error_running step_running_pass)
  also have "\<dots> = Inr (running (Suc j + n))"
    using Suc.prems by (intro Suc.IH) simp
  finally show ?case by simp
qed

lemma running_325:
  "running 325 = \<lparr>power = - 325, no_error = True, printed = [],
     evaluated = map (\<lambda>k. - int k) [0..<325]\<rparr>"
  by (simp add: running_def)

lemma np_log_zero_unescalated:
  "action env \<noteq> Error \<Longrightarrow> np_log env flog (PyFloat (Float 0)) = Inr (FloatInf True)"
  by (cases "action env") (simp_all add: np_log_def np_log_double_def warn_def)

lemma numpy_unescalated_passes:
  assumes "action env \<noteq> Error" and "k < 325"
  shows "try_verdict (int_pow 10) (np_log env flog) (- int k) = Passed"
proof (cases "k < 324")
  case True
  then show ?thesis by (rule numpy_verdict_pass)
next
  case False
  with assms(2) have k: "k = 324" by simp
  show ?thesis
    unfolding k try_verdict_def int_pow_10_324
    using np_log_zero_unescalated [OF assms(1)] by simp
qed

lemma numpy_unescalated_continues:
  assumes "action env \<noteq> Error"
  shows "loop_steps 325 (try_body (int_pow 10) (np_log env flog)) init = Inr (running 325)"
    and "numpy_cell env flog \<noteq> Some (Inr (stopped 324))"
proof -
  let ?v = "try_verdict (int_pow 10) (np_log env flog)"
  have p: "?v (- int k) = Passed" if "k < 325" for k
    using assms that by (rule numpy_unescalated_passes)
  show "loop_steps 325 (try_body (int_pow 10) (np_log env flog)) init = Inr (running 325)"
    unfolding try_body_step init_running
    using steps_running_bounded [of 0 325 ?v] p by simp
  show "numpy_cell env flog \<noteq> Some (Inr (stopped 324))"
  proof
    assume "numpy_cell env flog = Some (Inr (stopped 324))"
    then have "while_no_error (probe_step ?v) init = Some (Inr (stopped 324))"
      by (simp only: numpy_cell_def try_body_step)
    from while_init_Inr [OF this] obtain n where
      f: "?v (- int n) = Failed" and s: "stopped 324 = stopped n"
      by blast
    from s have "printed (stopped 324) = printed (stopped n)" by simp
    then have "n = 324" by (simp add: stopped_def)
    with f p [of 324] show False by simp
  qed
qed

section \<open>What the outcome of a pass depends on\<close>

lemma try_body_cong:
  assumes "\<And>x. isl (lg x) = isl (lg' x)"
  shows "try_body pw lg = try_body pw lg'"
proof (rule ext)
  fix s
  show "try_body pw lg s = try_body pw lg' s"
  proof (cases "pw (power s)")
    case (Inl ex)
    then show ?thesis by (simp add: try_body_def)
  next
    case (Inr x)
    with assms [of x] show ?thesis
      by (cases "lg x"; cases "lg' x") (simp_all add: try_body_def)
  qed
qed

lemma isl_math_log: "isl (math_log flog x) = isl (math_log flog' x)"
  by (auto simp: math_log_def split: num.splits double.splits sum.splits)

lemma isl_np_log_double:
  "action env = action env' \<Longrightarrow>
   isl (np_log_double env flog d) = isl (np_log_double env' flog' d)"
  by (cases "action env'") (auto simp: np_log_double_def warn_def split: double.splits)

lemma isl_np_log:
  "action env = action env' \<Longrightarrow> isl (np_log env flog x) = isl (np_log env' flog' x)"
  by (auto simp: np_log_def isl_np_log_double split: num.splits)

lemma decimal_body_cong:
  assumes "\<And>x. map_sum id (\<lambda>y. dec_eq y (DecInf True)) (ld x)
    = map_sum id (\<lambda>y. dec_eq y (DecInf True)) (ld' x)"
  shows "decimal_body pd ld = decimal_body pd ld'"
proof (rule ext)
  fix s
  show "decimal_body pd ld s = decimal_body pd ld' s"
  proof (cases "pd (power s)")
    case (Inl ex)
    then show ?thesis by (simp add: decimal_body_def)
  next
    case (Inr x)
    with assms [of x] show ?thesis
      by (cases "ld x"; cases "ld' x") (simp_all add: decimal_body_def)
  qed
qed

lemma map_sum_raise_signals:
  "map_sum id f (raise_signals ctx gs r) = raise_signals ctx gs (f r)"
  by (induction gs) simp_all

lemma decimal_ln_shape:
  "map_sum id (\<lambda>y. dec_eq y (DecInf True)) (decimal_ln ctx L x)
   = map_sum id (\<lambda>y. dec_eq y (DecInf True)) (decimal_ln ctx L' x)"
  by (cases x)
    (auto simp: decimal_ln_def map_sum_raise_signals dec_eq_sentinel split: prod.splits)

lemma math_body_flog:
  "try_body pw (math_log flog) = try_body pw (math_log flog')"
  by (rule try_body_cong) (rule isl_math_log)

lemma numpy_body_env:
  "try_body pw (np_log (setup_cell env) flog) = try_body pw (np_log (setup_cell env') flog')"
  by (rule try_body_cong) (rule isl_np_log, simp add: action_setup_cell)

lemma decimal_body_digits:
  "decimal_body pd (decimal_ln ctx L) = decimal_body pd (decimal_ln ctx L')"
  by (rule decimal_body_cong) (rule decimal_ln_shape)

section \<open>The claims\<close>

text \<open>
  C1. With base 10 and starting exponent 0, the \<open>math\<close> cell and the \<open>numpy\<close> cell (run
  after the setup cell) both end having printed the exponent \<open>-324\<close>, with \<open>power\<close> one
  step further at \<open>-325\<close>. The log of \<open>10 ** e\<close> is a finite float for every exponent
  \<open>-324 < e \<le> 0\<close>, and at \<open>e = -324\<close> the power is \<open>0.0\<close>, on which \<open>math.log\<close> raises
  \<open>ValueError\<close> and \<open>np.log\<close> raises the escalated \<open>RuntimeWarning\<close>.
\<close>

theorem float_probes_report_minus_324:
  "math_cell flog =
     Some (Inr \<lparr>power = - 325, no_error = False, printed = [- 324],
                evaluated = map (\<lambda>k. - int k) [0..<325]\<rparr>)
   \<and> numpy_cell (setup_cell env) flog =
     Some (Inr \<lparr>power = - 325, no_error = False, printed = [- 324],
                evaluated = map (\<lambda>k. - int k) [0..<325]\<rparr>)
   \<and> (\<forall>e. - 324 < e \<and> e \<le> 0 \<longrightarrow>
         (\<exists>x y. int_pow 10 e = Inr x \<and> math_log flog x = Inr (Float y)
            \<and> np_log (setup_cell env) flog x = Inr (Float y)))
   \<and> (\<exists>x. int_pow 10 (- 324) = Inr x
         \<and> math_log flog x = Inl (ValueError ''math domain error'')
         \<and> np_log (setup_cell env) flog x
             = Inl (RuntimeWarning ''divide by zero encountered in log''))"
proof (intro conjI allI impI)
  show "math_cell flog =
     Some (Inr \<lparr>power = - 325, no_error = False, printed = [- 324],
                evaluated = map (\<lambda>k. - int k) [0..<325]\<rparr>)"
    using math_cell_stopped [of flog] by (simp only: stopped_324)
  show "numpy_cell (setup_cell env) flog =
     Some (Inr \<lparr>power = - 325, no_error = False, printed = [- 324],
                evaluated = map (\<lambda>k. - int k) [0..<325]\<rparr>)"
    using numpy_cell_stopped [OF action_setup_cell] by (simp only: stopped_324)
next
  fix e :: int
  assume e: "- 324 < e \<and> e \<le> 0"
  then have "nat (- e) < 324" and "e = - int (nat (- e))" by linarith+
  with float_log_succeeds [of "nat (- e)" flog "setup_cell env"]
  show "\<exists>x y. int_pow 10 e = Inr x \<and> math_log flog x = Inr (Float y)
    \<and> np_log (setup_cell env) flog x = Inr (Float y)"
    by simp
next
  show "\<exists>x. int_pow 10 (- 324) = Inr x
         \<and> math_log flog x = Inl (ValueError ''math domain error'')
         \<and> np_log (setup_cell env) flog x
             = Inl (RuntimeWarning ''divide by zero encountered in log'')"
    using float_log_fails [OF action_setup_cell] by blast
qed

theorem float_probes_report_minus_324_witness:
  "- 324 < (- 323::int) \<and> (- 323::int) \<le> 0
   \<and> (\<exists>x y. int_pow 10 (- 323) = Inr x \<and> math_log (\<lambda>v. 0) x = Inr (Float y)
         \<and> np_log (setup_cell \<lparr>filters = []\<rparr>) (\<lambda>v. 0) x = Inr (Float y))"
  using float_probes_report_minus_324 [where flog = "\<lambda>v. 0" and env = "\<lparr>filters = []\<rparr>"]
  by simp

text \<open>
  C2. In the default context of the \<open>decimal\<close> module (28 digits, \<open>Emin = -999999\<close>), the
  \<open>decimal\<close> cell ends having printed the exponent \<open>-1000027\<close>. \<open>Decimal(10) ** e\<close> has a
  finite \<open>ln()\<close> for every exponent \<open>-1000027 < e \<le> 0\<close>; at \<open>e = -1000027\<close> the power has
  underflowed to zero and \<open>ln()\<close> is \<open>Decimal("-Infinity")\<close>.
\<close>

theorem decimal_probe_reports_minus_1000027:
  "decimal_cell L =
     Some (Inr \<lparr>power = - 1000028, no_error = False, printed = [- 1000027],
                evaluated = map (\<lambda>k. - int k) [0..<1000028]\<rparr>)
   \<and> (\<forall>e. - 1000027 < e \<and> e \<le> 0 \<longrightarrow>
         (\<exists>x neg c e'. decimal_ten_pow DefaultContext e = Inr x
            \<and> decimal_ln DefaultContext L x = Inr (Dec neg c e')))
   \<and> (\<exists>x. decimal_ten_pow DefaultContext (- 1000027) = Inr x
         \<and> decimal_ln DefaultContext L x = Inr (DecInf True))"
proof (intro conjI allI impI)
  show "decimal_cell L =
     Some (Inr \<lparr>power = - 1000028, no_error = False, printed = [- 1000027],
                evaluated = map (\<lambda>k. - int k) [0..<1000028]\<rparr>)"
    using decimal_cell_stopped [of L] by (simp only: stopped_1000027)
next
  fix e :: int
  assume "- 1000027 < e \<and> e \<le> 0"
  then have "nat (- e) < 1000027" and "e = - int (nat (- e))" by linarith+
  with decimal_ln_succeeds [of "nat (- e)" L]
  show "\<exists>x neg c e'. decimal_ten_pow DefaultContext e = Inr x
    \<and> decimal_ln DefaultContext L x = Inr (Dec neg c e')"
    by simp
next
  show "\<exists>x. decimal_ten_pow DefaultContext (- 1000027) = Inr x
         \<and> decimal_ln DefaultContext L x = Inr (DecInf True)"
    using decimal_ln_fails [of L] by blast
qed

theorem decimal_probe_reports_minus_1000027_witness:
  "- 1000027 < (- 1000026::int) \<and> (- 1000026::int) \<le> 0
   \<and> (\<exists>x neg c e'. decimal_ten_pow DefaultContext (- 1000026) = Inr x
         \<and> decimal_ln DefaultContext (\<lambda>p c e. (True, 23, 5)) x = Inr (Dec neg c e'))"
  using decimal_probe_reports_minus_1000027 [where L = "\<lambda>p c e. (True, 23, 5)"]
  by simp



text \<open>
  C4. In the default context, at every exponent \<open>p \<le> 0\<close> the decimal cell can reach (also
  below the boundary), \<open>Decimal(10) ** p\<close> and its \<open>ln()\<close> return values and raise nothing; the
  result equals \<open>Decimal("-Infinity")\<close> exactly when the power is the zero \<open>0E-1000026\<close>,
  which is exactly when \<open>p \<le> -1000027\<close>. The comparison is the only exit of the loop: when
  the loop ends, the log at the last exponent it tried compared equal to the sentinel, and
  with a power and a log that never raise and never compare equal to the sentinel the loop
  does not terminate.
\<close>

theorem decimal_stops_by_sentinel_only:
  "(\<forall>p\<le>0. \<exists>x y. decimal_ten_pow DefaultContext p = Inr x
        \<and> decimal_ln DefaultContext L x = Inr y
        \<and> (dec_eq y (DecInf True) \<longleftrightarrow> x = Dec False 0 (- 1000026))
        \<and> (x = Dec False 0 (- 1000026) \<longleftrightarrow> p \<le> - 1000027))
   \<and> (while_no_error (decimal_body pd ld) init = Some (Inr s) \<longrightarrow>
        (\<exists>x y. pd (power s + 1) = Inr x \<and> ld x = Inr y \<and> dec_eq y (DecInf True)))
   \<and> ((\<forall>p\<le>0. \<exists>x y. pd' p = Inr x \<and> ld' x = Inr y \<and> \<not> dec_eq y (DecInf True)) \<longrightarrow>
        while_no_error (decimal_body pd' ld') init = None)"
  using ten_pow_ln_total [of _ L] decimal_loop_exit [of pd ld s]
    decimal_loop_needs_sentinel [of pd' ld']
  by blast

theorem decimal_stops_by_sentinel_only_witness:
  "(- 1000027::int) \<le> 0
   \<and> (\<exists>x y. decimal_ten_pow DefaultContext (- 1000027) = Inr x
        \<and> decimal_ln DefaultContext (\<lambda>p c e. (True, 23, 5)) x = Inr y
        \<and> dec_eq y (DecInf True) \<and> x = Dec False 0 (- 1000026))
   \<and> decimal_cell (\<lambda>p c e. (True, 23, 5)) = Some (Inr (stopped 1000027))
   \<and> (\<exists>x y. decimal_ten_pow DefaultContext (power (stopped 1000027) + 1) = Inr x
        \<and> decimal_ln DefaultContext (\<lambda>p c e. (True, 23, 5)) x = Inr y
        \<and> dec_eq y (DecInf True))
   \<and> while_no_error
        (decimal_body (decimal_ten_pow DefaultContext) (\<lambda>x. Inr (Dec False 0 0))) init = None"
proof -
  let ?L = "\<lambda>(p::nat) (c::nat) (e::int). (True, 23::nat, 5::int)"
  note t = decimal_stops_by_sentinel_only
    [where L = ?L and pd = "decimal_ten_pow DefaultContext"
      and ld = "decimal_ln DefaultContext ?L" and s = "stopped 1000027"
      and pd' = "decimal_ten_pow DefaultContext"
      and ld' = "\<lambda>x. Inr (Dec False 0 0) :: py_exception + decimal"]
  have le: "(- 1000027::int) \<le> 0" by simp
  from t [THEN conjunct1, rule_format, OF le]
  have 1: "\<exists>x y. decimal_ten_pow DefaultContext (- 1000027) = Inr x
        \<and> decimal_ln DefaultContext ?L x = Inr y
        \<and> dec_eq y (DecInf True) \<and> x = Dec False 0 (- 1000026)"
    by auto
  have c: "decimal_cell ?L = Some (Inr (stopped 1000027))" by (rule decimal_cell_stopped)
  from t [THEN conjunct2, THEN conjunct1] c [unfolded decimal_cell_def]
  have 2: "\<exists>x y. decimal_ten_pow DefaultContext (power (stopped 1000027) + 1) = Inr x
        \<and> decimal_ln DefaultContext ?L x = Inr y \<and> dec_eq y (DecInf True)"
    by blast
  have h: "\<forall>p\<le>0. \<exists>x y. decimal_ten_pow DefaultContext p = Inr x
      \<and> (Inr (Dec False 0 0) :: py_exception + decimal) = Inr y \<and> \<not> dec_eq y (DecInf True)"
  proof (intro allI impI)
    fix p :: int assume "p \<le> 0"
    from ten_pow_ln_total [OF this, of ?L]
    obtain x where "decimal_ten_pow DefaultContext p = Inr x" by blast
    then show "\<exists>x y. decimal_ten_pow DefaultContext p = Inr x
      \<and> (Inr (Dec False 0 0) :: py_exception + decimal) = Inr y \<and> \<not> dec_eq y (DecInf True)"
      by (simp add: dec_eq_def)
  qed
  from t [THEN conjunct2, THEN conjunct2] h
  have 3: "while_no_error
        (decimal_body (decimal_ten_pow DefaultContext) (\<lambda>x. Inr (Dec False 0 0))) init = None"
    by blast
  from le 1 c 2 3 show ?thesis by blast
qed

text \<open>
  C5. The setup cell always leaves the warnings filter with the action \<open>error\<close> in front,
  whatever the filter list was. Under it the division-by-zero warning of \<open>np.log(0.0)\<close> is
  raised as an exception, the bare \<open>except\<close> of the \<open>numpy\<close> loop catches it, and the cell
  ends having printed \<open>-324\<close>. Under any other action \<open>np.log(0.0)\<close> returns negative
  infinity without raising: the loop is then still running after the pass at \<open>-324\<close> and
  the cell does not end in that state.
\<close>

theorem numpy_warning_escalated:
  "action (setup_cell env) = Error
   \<and> np_log (setup_cell env) flog (PyFloat (Float 0))
       = Inl (RuntimeWarning ''divide by zero encountered in log'')
   \<and> numpy_cell (setup_cell env) flog =
       Some (Inr \<lparr>power = - 325, no_error = False, printed = [- 324],
                  evaluated = map (\<lambda>k. - int k) [0..<325]\<rparr>)
   \<and> (action env' \<noteq> Error \<longrightarrow>
        np_log env' flog (PyFloat (Float 0)) = Inr (FloatInf True)
        \<and> loop_steps 325 (try_body (int_pow 10) (np_log env' flog)) init =
            Inr \<lparr>power = - 325, no_error = True, printed = [],
                 evaluated = map (\<lambda>k. - int k) [0..<325]\<rparr>
        \<and> numpy_cell env' flog \<noteq>
            Some (Inr \<lparr>power = - 325, no_error = False, printed = [- 324],
                       evaluated = map (\<lambda>k. - int k) [0..<325]\<rparr>))"
proof (intro conjI impI)
  show "action (setup_cell env) = Error" by (rule action_setup_cell)
  show "np_log (setup_cell env) flog (PyFloat (Float 0))
       = Inl (RuntimeWarning ''divide by zero encountered in log'')"
    using float_log_fails [OF action_setup_cell] by blast
  show "numpy_cell (setup_cell env) flog =
       Some (Inr \<lparr>power = - 325, no_error = False, printed = [- 324],
                  evaluated = map (\<lambda>k. - int k) [0..<325]\<rparr>)"
    using numpy_cell_stopped [OF action_setup_cell] by (simp only: stopped_324)
next
  assume a: "action env' \<noteq> Error"
  show "np_log env' flog (PyFloat (Float 0)) = Inr (FloatInf True)"
    using a by (rule np_log_zero_unescalated)
  show "loop_steps 325 (try_body (int_pow 10) (np_log env' flog)) init =
            Inr \<lparr>power = - 325, no_error = True, printed = [],
                 evaluated = map (\<lambda>k. - int k) [0..<325]\<rparr>"
    using numpy_unescalated_continues(1) [OF a, of flog] by (simp only: running_325)
  show "numpy_cell env' flog \<noteq>
            Some (Inr \<lparr>power = - 325, no_error = False, printed = [- 324],
                       evaluated = map (\<lambda>k. - int k) [0..<325]\<rparr>)"
    using numpy_unescalated_continues(2) [OF a, of flog] unfolding stopped_324 .
qed

theorem numpy_warning_escalated_witness:
  "action \<lparr>filters = []\<rparr> \<noteq> Error
   \<and> np_log \<lparr>filters = []\<rparr> (\<lambda>v. 0) (PyFloat (Float 0)) = Inr (FloatInf True)
   \<and> loop_steps 325 (try_body (int_pow 10) (np_log \<lparr>filters = []\<rparr> (\<lambda>v. 0))) init =
        Inr \<lparr>power = - 325, no_error = True, printed = [],
             evaluated = map (\<lambda>k. - int k) [0..<325]\<rparr>"
proof -
  have a: "action \<lparr>filters = []\<rparr> \<noteq> Error" by (simp add: action_def)
  from numpy_warning_escalated [where env' = "\<lparr>filters = []\<rparr>" and flog = "\<lambda>v. 0"] a
  show ?thesis by blast
qed

text \<open>
  C6. For each of the three cells: if the cell ends having printed the boundary \<open>b\<close>, then
  the log of \<open>10 ** (b + 1)\<close> is a finite number (for \<open>decimal\<close>: a value that is not
  \<open>Decimal("-Infinity")\<close>), and the log of \<open>10 ** b\<close> raises (for \<open>decimal\<close>: equals
  \<open>Decimal("-Infinity")\<close>).
\<close>

theorem boundary_adjacency:
  "(math_cell flog = Some (Inr s) \<and> printed s = [b] \<longrightarrow>
      (\<exists>x y. int_pow 10 (b + 1) = Inr x \<and> math_log flog x = Inr (Float y))
      \<and> (\<exists>x ex. int_pow 10 b = Inr x \<and> math_log flog x = Inl ex))
   \<and> (numpy_cell (setup_cell env) flog = Some (Inr s) \<and> printed s = [b] \<longrightarrow>
      (\<exists>x y. int_pow 10 (b + 1) = Inr x \<and> np_log (setup_cell env) flog x = Inr (Float y))
      \<and> (\<exists>x ex. int_pow 10 b = Inr x \<and> np_log (setup_cell env) flog x = Inl ex))
   \<and> (decimal_cell L = Some (Inr s) \<and> printed s = [b] \<longrightarrow>
      (\<exists>x y. decimal_ten_pow DefaultContext (b + 1) = Inr x
          \<and> decimal_ln DefaultContext L x = Inr y \<and> \<not> dec_eq y (DecInf True))
      \<and> (\<exists>x y. decimal_ten_pow DefaultContext b = Inr x
          \<and> decimal_ln DefaultContext L x = Inr y \<and> dec_eq y (DecInf True)))"
proof -
  have up: "\<exists>x y. int_pow 10 (- 324 + 1) = Inr x \<and> math_log flog x = Inr (Float y)
      \<and> np_log (setup_cell env) flog x = Inr (Float y)"
    using float_log_succeeds [of 323 flog "setup_cell env"] by simp
  have down: "int_pow 10 (- 324) = Inr (PyFloat (Float 0))
    \<and> math_log flog (PyFloat (Float 0)) = Inl (ValueError ''math domain error'')
    \<and> np_log (setup_cell env) flog (PyFloat (Float 0))
        = Inl (RuntimeWarning ''divide by zero encountered in log'')"
    by (rule float_log_fails [OF action_setup_cell])
  have m: "b = - 324" if "math_cell flog = Some (Inr s)" "printed s = [b]"
    using that math_cell_stopped [of flog] printed_stopped [of 324] by auto
  have n: "b = - 324" if "numpy_cell (setup_cell env) flog = Some (Inr s)" "printed s = [b]"
    using that numpy_cell_stopped [OF action_setup_cell, of env flog] printed_stopped [of 324]
    by auto
  have d: "b = - 1000027" if "decimal_cell L = Some (Inr s)" "printed s = [b]"
    using that decimal_cell_stopped [of L] printed_stopped [of 1000027] by auto
  have dup: "\<exists>x y. decimal_ten_pow DefaultContext (- 1000027 + 1) = Inr x
          \<and> decimal_ln DefaultContext L x = Inr y \<and> \<not> dec_eq y (DecInf True)"
    using decimal_ln_succeeds [of 1000026 L] by (auto simp: dec_eq_sentinel)
  have ddown: "\<exists>x y. decimal_ten_pow DefaultContext (- 1000027) = Inr x
          \<and> decimal_ln DefaultContext L x = Inr y \<and> dec_eq y (DecInf True)"
    using decimal_ln_fails [of L] by (auto simp: dec_eq_sentinel)
  show ?thesis
  proof (intro conjI impI)
    assume "math_cell flog = Some (Inr s) \<and> printed s = [b]"
    then have b: "b = - 324" using m by blast
    show "\<exists>x y. int_pow 10 (b + 1) = Inr x \<and> math_log flog x = Inr (Float y)"
      unfolding b using up by blast
    show "\<exists>x ex. int_pow 10 b = Inr x \<and> math_log flog x = Inl ex"
      unfolding b using down by blast
  next
    assume "numpy_cell (setup_cell env) flog = Some (Inr s) \<and> printed s = [b]"
    then have b: "b = - 324" using n by blast
    show "\<exists>x y. int_pow 10 (b + 1) = Inr x \<and> np_log (setup_cell env) flog x = Inr (Float y)"
      unfolding b using up by blast
    show "\<exists>x ex. int_pow 10 b = Inr x \<and> np_log (setup_cell env) flog x = Inl ex"
      unfolding b using down by blast
  next
    assume "decimal_cell L = Some (Inr s) \<and> printed s = [b]"
    then have b: "b = - 1000027" using d by blast
    show "\<exists>x y. decimal_ten_pow DefaultContext (b + 1) = Inr x
          \<and> decimal_ln DefaultContext L x = Inr y \<and> \<not> dec_eq y (DecInf True)"
      unfolding b using dup by blast
    show "\<exists>x y. decimal_ten_pow DefaultContext b = Inr x
          \<and> decimal_ln DefaultContext L x = Inr y \<and> dec_eq y (DecInf True)"
      unfolding b using ddown by blast
  qed
qed

theorem boundary_adjacency_witness:
  "math_cell (\<lambda>v. 0) = Some (Inr (stopped 324)) \<and> printed (stopped 324) = [- 324]
   \<and> (\<exists>x y. int_pow 10 (- 324 + 1) = Inr x \<and> math_log (\<lambda>v. 0) x = Inr (Float y))
   \<and> (\<exists>x ex. int_pow 10 (- 324) = Inr x \<and> math_log (\<lambda>v. 0) x = Inl ex)
   \<and> numpy_cell (setup_cell \<lparr>filters = []\<rparr>) (\<lambda>v. 0) = Some (Inr (stopped 324))
   \<and> (\<exists>x y. int_pow 10 (- 324 + 1) = Inr x
          \<and> np_log (setup_cell \<lparr>filters = []\<rparr>) (\<lambda>v. 0) x = Inr (Float y))
   \<and> (\<exists>x ex. int_pow 10 (- 324) = Inr x
          \<and> np_log (setup_cell \<lparr>filters = []\<rparr>) (\<lambda>v. 0) x = Inl ex)
   \<and> decimal_cell (\<lambda>p c e. (True, 23, 5)) = Some (Inr (stopped 1000027))
   \<and> printed (stopped 1000027) = [- 1000027]
   \<and> (\<exists>x y. decimal_ten_pow DefaultContext (- 1000027 + 1) = Inr x
          \<and> decimal_ln DefaultContext (\<lambda>p c e. (True, 23, 5)) x = Inr y
          \<and> \<not> dec_eq y (DecInf True))
   \<and> (\<exists>x y. decimal_ten_pow DefaultContext (- 1000027) = Inr x
          \<and> decimal_ln DefaultContext (\<lambda>p c e. (True, 23, 5)) x = Inr y
          \<and> dec_eq y (DecInf True))"
proof -
  have a: "math_cell (\<lambda>v. 0) = Some (Inr (stopped 324)) \<and> printed (stopped 324) = [- 324]"
    using math_cell_stopped [of "\<lambda>v. 0"] by (simp add: printed_stopped)
  have c: "decimal_cell (\<lambda>p c e. (True, 23, 5)) = Some (Inr (stopped 1000027))
    \<and> printed (stopped 1000027) = [- 1000027]"
    using decimal_cell_stopped [of "\<lambda>p c e. (True, 23, 5)"] by (simp add: printed_stopped)
  from boundary_adjacency
    [where flog = "\<lambda>v. 0" and s = "stopped 324" and b = "- 324", THEN conjunct1] a
  have 1: "(\<exists>x y. int_pow 10 (- 324 + 1) = Inr x \<and> math_log (\<lambda>v. 0) x = Inr (Float y))
   \<and> (\<exists>x ex. int_pow 10 (- 324) = Inr x \<and> math_log (\<lambda>v. 0) x = Inl ex)"
    by blast
  from boundary_adjacency
    [where L = "\<lambda>p c e. (True, 23, 5)" and s = "stopped 1000027" and b = "- 1000027",
      THEN conjunct2, THEN conjunct2] c
  have 2: "(\<exists>x y. decimal_ten_pow DefaultContext (- 1000027 + 1) = Inr x
          \<and> decimal_ln DefaultContext (\<lambda>p c e. (True, 23, 5)) x = Inr y
          \<and> \<not> dec_eq y (DecInf True))
   \<and> (\<exists>x y. decimal_ten_pow DefaultContext (- 1000027) = Inr x
          \<and> decimal_ln DefaultContext (\<lambda>p c e. (True, 23, 5)) x = Inr y
          \<and> dec_eq y (DecInf True))"
    by blast
  have n: "numpy_cell (setup_cell \<lparr>filters = []\<rparr>) (\<lambda>v. 0) = Some (Inr (stopped 324))"
    by (rule numpy_cell_stopped [OF action_setup_cell])
  from boundary_adjacency
    [where flog = "\<lambda>v. 0" and env = "\<lparr>filters = []\<rparr>" and s = "stopped 324" and b = "- 324",
      THEN conjunct2, THEN conjunct1] n a
  have 3: "(\<exists>x y. int_pow 10 (- 324 + 1) = Inr x
          \<and> np_log (setup_cell \<lparr>filters = []\<rparr>) (\<lambda>v. 0) x = Inr (Float y))
   \<and> (\<exists>x ex. int_pow 10 (- 324) = Inr x
          \<and> np_log (setup_cell \<lparr>filters = []\<rparr>) (\<lambda>v. 0) x = Inl ex)"
    by blast
  from a 1 n 3 c 2 show ?thesis by blast
qed

text \<open>
  C7. At every point of every run of either loop (after any number of passes, whether or
  not the run ever ends, and in the final state when it does), the exponents at which the
  log function has been called are \<open>0, -1, -2, \<dots>\<close> in this order: the first is 0, each
  next one is smaller by exactly 1, and none occurs twice.
\<close>

theorem exponents_descend_by_one:
  "(loop_steps k (try_body pw lg) init = Inr s
    \<or> loop_steps k (decimal_body pd ld) init = Inr s
    \<or> while_no_error (try_body pw lg) init = Some (Inr s)
    \<or> while_no_error (decimal_body pd ld) init = Some (Inr s))
   \<longrightarrow> (\<exists>m. evaluated s = map (\<lambda>i. - int i) [0..<m])
      \<and> (evaluated s \<noteq> [] \<longrightarrow> evaluated s ! 0 = 0)
      \<and> (\<forall>i. Suc i < length (evaluated s) \<longrightarrow> evaluated s ! Suc i = evaluated s ! i - 1)
      \<and> distinct (evaluated s)"
proof
  assume "loop_steps k (try_body pw lg) init = Inr s
    \<or> loop_steps k (decimal_body pd ld) init = Inr s
    \<or> while_no_error (try_body pw lg) init = Some (Inr s)
    \<or> while_no_error (decimal_body pd ld) init = Some (Inr s)"
  then obtain m where m: "evaluated s = map (\<lambda>i. - int i) [0..<m]"
    unfolding try_body_step decimal_body_step
    using loop_steps_init_evaluated while_init_evaluated by metis
  from descending_facts [OF m] m
  show "(\<exists>m. evaluated s = map (\<lambda>i. - int i) [0..<m])
      \<and> (evaluated s \<noteq> [] \<longrightarrow> evaluated s ! 0 = 0)
      \<and> (\<forall>i. Suc i < length (evaluated s) \<longrightarrow> evaluated s ! Suc i = evaluated s ! i - 1)
      \<and> distinct (evaluated s)"
    by blast
qed

theorem exponents_descend_by_one_witness:
  "while_no_error (try_body (int_pow 10) (math_log (\<lambda>v. 0))) init = Some (Inr (stopped 324))
   \<and> evaluated (stopped 324) \<noteq> []
   \<and> evaluated (stopped 324) ! 0 = 0
   \<and> Suc 7 < length (evaluated (stopped 324))
   \<and> evaluated (stopped 324) ! Suc 7 = evaluated (stopped 324) ! 7 - 1
   \<and> distinct (evaluated (stopped 324))"
proof -
  have r: "while_no_error (try_body (int_pow 10) (math_log (\<lambda>v. 0))) init
    = Some (Inr (stopped 324))"
    using math_cell_stopped [of "\<lambda>v. 0"] by (simp only: math_cell_def)
  have ne: "evaluated (stopped 324) \<noteq> []" and len: "Suc 7 < length (evaluated (stopped 324))"
    by (simp_all add: stopped_def)
  from exponents_descend_by_one
    [where pw = "int_pow 10" and lg = "math_log (\<lambda>v. 0)" and s = "stopped 324"] r
  have "(evaluated (stopped 324) \<noteq> [] \<longrightarrow> evaluated (stopped 324) ! 0 = 0)
      \<and> (\<forall>i. Suc i < length (evaluated (stopped 324)) \<longrightarrow>
            evaluated (stopped 324) ! Suc i = evaluated (stopped 324) ! i - 1)
      \<and> distinct (evaluated (stopped 324))"
    by blast
  with r ne len show ?thesis by blast
qed

text \<open>
  C8. Each of the three cells terminates: its loop returns a final state. The descending
  exponents reach one at which the cell's failure test fires: \<open>math.log\<close> raises, \<open>np.log\<close>
  raises under the filter set by the setup cell, and \<open>Decimal.ln\<close> returns
  \<open>Decimal("-Infinity")\<close>.
\<close>

theorem probes_terminate:
  "(\<exists>s. math_cell flog = Some (Inr s))
   \<and> (\<exists>s. numpy_cell (setup_cell env) flog = Some (Inr s))
   \<and> (\<exists>s. decimal_cell L = Some (Inr s))
   \<and> (\<exists>n x ex. int_pow 10 (- int n) = Inr x \<and> math_log flog x = Inl ex)
   \<and> (\<exists>n x ex. int_pow 10 (- int n) = Inr x \<and> np_log (setup_cell env) flog x = Inl ex)
   \<and> (\<exists>n x. decimal_ten_pow DefaultContext (- int n) = Inr x
         \<and> decimal_ln DefaultContext L x = Inr (DecInf True))"
proof (intro conjI)
  show "\<exists>s. math_cell flog = Some (Inr s)" using math_cell_stopped by blast
  show "\<exists>s. numpy_cell (setup_cell env) flog = Some (Inr s)"
    using numpy_cell_stopped [OF action_setup_cell] by blast
  show "\<exists>s. decimal_cell L = Some (Inr s)" using decimal_cell_stopped by blast
  have f: "int_pow 10 (- int 324) = Inr (PyFloat (Float 0))" by (rule int_pow_10_324)
  from float_log_fails [OF action_setup_cell]
  have m: "math_log flog (PyFloat (Float 0)) = Inl (ValueError ''math domain error'')"
    and n: "np_log (setup_cell env) flog (PyFloat (Float 0))
        = Inl (RuntimeWarning ''divide by zero encountered in log'')"
    by blast+
  from f m show "\<exists>n x ex. int_pow 10 (- int n) = Inr x \<and> math_log flog x = Inl ex" by blast
  from f n show "\<exists>n x ex. int_pow 10 (- int n) = Inr x \<and> np_log (setup_cell env) flog x = Inl ex"
    by blast
  have "decimal_ten_pow DefaultContext (- int 1000027) = Inr (Dec False 0 (- 1000026))"
    by (rule ten_pow_underflow) simp
  with ln_zero [of DefaultContext L False "- 1000026"]
  show "\<exists>n x. decimal_ten_pow DefaultContext (- int n) = Inr x
         \<and> decimal_ln DefaultContext L x = Inr (DecInf True)"
    by blast
qed

text \<open>
  C9. The outcome of a probe is fixed by its configuration: the base \<open>X\<close>, the starting
  exponent \<open>e0\<close> and the backend. Two runs with the same configuration have the same outcome
  (the same printed boundary, the same exception, or both run forever), also when
  everything else a run can see differs between them: the digits the library's \<open>log\<close>
  returns (\<open>flog\<close>, \<open>ln_digits\<close>) and the warning filters that were in place before the
  setup cell ran. For the decimal backend the power computation of the base is the
  parameter \<open>pd\<close>. The runs are given by the relation \<open>probe_run\<close>; in particular each of
  the three cells, as a function, does not depend on these.
\<close>

theorem probe_outcome_fixed_by_configuration:
  fixes pd :: "int \<Rightarrow> py_exception + decimal"
  shows
  "(probe_run (try_body (int_pow X) (math_log flog)) (init\<lparr>power := e0\<rparr>) r
      \<and> probe_run (try_body (int_pow X) (math_log flog')) (init\<lparr>power := e0\<rparr>) r'
      \<longrightarrow> r = r')
   \<and> (probe_run (try_body (int_pow X) (np_log (setup_cell env) flog)) (init\<lparr>power := e0\<rparr>) r
      \<and> probe_run (try_body (int_pow X) (np_log (setup_cell env') flog')) (init\<lparr>power := e0\<rparr>) r'
      \<longrightarrow> r = r')
   \<and> (probe_run (decimal_body pd (decimal_ln ctx L)) (init\<lparr>power := e0\<rparr>) r
      \<and> probe_run (decimal_body pd (decimal_ln ctx L')) (init\<lparr>power := e0\<rparr>) r'
      \<longrightarrow> r = r')
   \<and> math_cell flog = math_cell flog'
   \<and> numpy_cell (setup_cell env) flog = numpy_cell (setup_cell env') flog'
   \<and> decimal_cell L = decimal_cell L'"
proof (intro conjI impI)
  assume "probe_run (try_body (int_pow X) (math_log flog)) (init\<lparr>power := e0\<rparr>) r
      \<and> probe_run (try_body (int_pow X) (math_log flog')) (init\<lparr>power := e0\<rparr>) r'"
  then show "r = r'"
    unfolding math_body_flog [of "int_pow X" flog flog']
    using probe_run_deterministic_aux by blast
next
  assume "probe_run (try_body (int_pow X) (np_log (setup_cell env) flog)) (init\<lparr>power := e0\<rparr>) r
      \<and> probe_run (try_body (int_pow X) (np_log (setup_cell env') flog')) (init\<lparr>power := e0\<rparr>) r'"
  then show "r = r'"
    unfolding numpy_body_env [of "int_pow X" env flog env' flog']
    using probe_run_deterministic_aux by blast
next
  assume "probe_run (decimal_body pd (decimal_ln ctx L)) (init\<lparr>power := e0\<rparr>) r
      \<and> probe_run (decimal_body pd (decimal_ln ctx L')) (init\<lparr>power := e0\<rparr>) r'"
  then show "r = r'"
    unfolding decimal_body_digits [of pd ctx L L']
    using probe_run_deterministic_aux by blast
next
  show "math_cell flog = math_cell flog'"
    unfolding math_cell_def by (simp only: math_body_flog [of "int_pow 10" flog flog'])
  show "numpy_cell (setup_cell env) flog = numpy_cell (setup_cell env') flog'"
    unfolding numpy_cell_def
    by (simp only: numpy_body_env [of "int_pow 10" env flog env' flog'])
  show "decimal_cell L = decimal_cell L'"
    unfolding decimal_cell_def
    by (simp only: decimal_body_digits [of "decimal_ten_pow DefaultContext" DefaultContext L L'])
qed

theorem probe_outcome_fixed_by_configuration_witness:
  "probe_run (try_body (int_pow 10) (math_log (\<lambda>v. 0))) (init\<lparr>power := 0\<rparr>)
      (Inr (stopped 324))
   \<and> probe_run (try_body (int_pow 10) (math_log (\<lambda>v. 1))) (init\<lparr>power := 0\<rparr>)
      (Inr (stopped 324))
   \<and> \<not> probe_run (try_body (int_pow 10) (math_log (\<lambda>v. 1))) (init\<lparr>power := 0\<rparr>)
      (Inr init)
   \<and> probe_run (try_body (int_pow 10) (np_log (setup_cell \<lparr>filters = []\<rparr>) (\<lambda>v. 0)))
      (init\<lparr>power := 0\<rparr>) (Inr (stopped 324))
   \<and> probe_run (try_body (int_pow 10) (np_log (setup_cell \<lparr>filters = [Ignore]\<rparr>) (\<lambda>v. 1)))
      (init\<lparr>power := 0\<rparr>) (Inr (stopped 324))
   \<and> \<not> probe_run (try_body (int_pow 10) (np_log (setup_cell \<lparr>filters = [Ignore]\<rparr>) (\<lambda>v. 1)))
      (init\<lparr>power := 0\<rparr>) (Inr init)
   \<and> probe_run
      (decimal_body (decimal_ten_pow DefaultContext)
         (decimal_ln DefaultContext (\<lambda>p c e. (True, 23, 5))))
      (init\<lparr>power := 0\<rparr>) (Inr (stopped 1000027))
   \<and> probe_run
      (decimal_body (decimal_ten_pow DefaultContext)
         (decimal_ln DefaultContext (\<lambda>p c e. (False, 7, 0))))
      (init\<lparr>power := 0\<rparr>) (Inr (stopped 1000027))
   \<and> \<not> probe_run
      (decimal_body (decimal_ten_pow DefaultContext)
         (decimal_ln DefaultContext (\<lambda>p c e. (False, 7, 0))))
      (init\<lparr>power := 0\<rparr>) (Inr init)"
proof -
  have i: "init\<lparr>power := 0\<rparr> = init" by (simp add: init_def)
  have ne: "stopped n \<noteq> init" for n
  proof
    assume "stopped n = init"
    then have "no_error (stopped n) = no_error init" by simp
    then show False by (simp add: stopped_def init_def)
  qed
  have m: "probe_run (try_body (int_pow 10) (math_log f)) (init\<lparr>power := 0\<rparr>)
      (Inr (stopped 324))" for f
    unfolding i using math_cell_stopped [of f] unfolding math_cell_def by (rule While_probe_run)
  have n: "probe_run (try_body (int_pow 10) (np_log (setup_cell e) f)) (init\<lparr>power := 0\<rparr>)
      (Inr (stopped 324))" for e f
    unfolding i using numpy_cell_stopped [OF action_setup_cell, of e f]
    unfolding numpy_cell_def by (rule While_probe_run)
  have d: "probe_run
      (decimal_body (decimal_ten_pow DefaultContext) (decimal_ln DefaultContext L))
      (init\<lparr>power := 0\<rparr>) (Inr (stopped 1000027))" for L
    unfolding i using decimal_cell_stopped [of L]
    unfolding decimal_cell_def by (rule While_probe_run)
  note t = probe_outcome_fixed_by_configuration
  have 1: "\<not> probe_run (try_body (int_pow 10) (math_log (\<lambda>v. 1))) (init\<lparr>power := 0\<rparr>)
      (Inr init)"
  proof
    assume "probe_run (try_body (int_pow 10) (math_log (\<lambda>v. 1))) (init\<lparr>power := 0\<rparr>)
      (Inr init)"
    with m [of "\<lambda>v. 0"]
      t [where X = 10 and flog = "\<lambda>v. 0" and flog' = "\<lambda>v. 1" and ?e0.0 = 0
          and r = "Inr (stopped 324)" and r' = "Inr init", THEN conjunct1]
    have "(Inr (stopped 324) :: py_exception + probe_state) = Inr init" by blast
    with ne show False by simp
  qed
  have 2: "\<not> probe_run
      (try_body (int_pow 10) (np_log (setup_cell \<lparr>filters = [Ignore]\<rparr>) (\<lambda>v. 1)))
      (init\<lparr>power := 0\<rparr>) (Inr init)"
  proof
    assume "probe_run
      (try_body (int_pow 10) (np_log (setup_cell \<lparr>filters = [Ignore]\<rparr>) (\<lambda>v. 1)))
      (init\<lparr>power := 0\<rparr>) (Inr init)"
    with n [of "\<lparr>filters = []\<rparr>" "\<lambda>v. 0"]
      t [where X = 10 and flog = "\<lambda>v. 0" and flog' = "\<lambda>v. 1" and ?e0.0 = 0
          and env = "\<lparr>filters = []\<rparr>" and env' = "\<lparr>filters = [Ignore]\<rparr>"
          and r = "Inr (stopped 324)" and r' = "Inr init", THEN conjunct2, THEN conjunct1]
    have "(Inr (stopped 324) :: py_exception + probe_state) = Inr init" by blast
    with ne show False by simp
  qed
  have 3: "\<not> probe_run
      (decimal_body (decimal_ten_pow DefaultContext)
         (decimal_ln DefaultContext (\<lambda>p c e. (False, 7, 0))))
      (init\<lparr>power := 0\<rparr>) (Inr init)"
  proof
    assume "probe_run
      (decimal_body (decimal_ten_pow DefaultContext)
         (decimal_ln DefaultContext (\<lambda>p c e. (False, 7, 0))))
      (init\<lparr>power := 0\<rparr>) (Inr init)"
    with d [of "\<lambda>p c e. (True, 23, 5)"]
      t [where pd = "decimal_ten_pow DefaultContext" and ctx = DefaultContext
          and L = "\<lambda>p c e. (True, 23, 5)" and L' = "\<lambda>p c e. (False, 7, 0)" and ?e0.0 = 0
          and r = "Inr (stopped 1000027)" and r' = "Inr init",
          THEN conjunct2, THEN conjunct2, THEN conjunct1]
    have "(Inr (stopped 1000027) :: py_exception + probe_state) = Inr init" by blast
    with ne show False by simp
  qed
  from m [of "\<lambda>v. 0"] m [of "\<lambda>v. 1"] 1
    n [of "\<lparr>filters = []\<rparr>" "\<lambda>v. 0"] n [of "\<lparr>filters = [Ignore]\<rparr>" "\<lambda>v. 1"] 2
    d [of "\<lambda>p c e. (True, 23, 5)"] d [of "\<lambda>p c e. (False, 7, 0)"] 3
  show ?thesis by (intro conjI)
qed

text \<open>
  C10. The \<open>except:\<close> clause of the two float loops names no exception type. Whatever the
  log call raises (the exception type \<open>'e\<close> is arbitrary), the pass sets \<open>no_error\<close> to
  \<open>False\<close> and prints the current exponent, and the loop ends there without raising. An
  exception that does leave the loop was raised by \<open>x = X ** power\<close>, which stands outside
  the \<open>try\<close> block.
\<close>

theorem bare_except_catches_everything:
  fixes pw :: "int \<Rightarrow> 'e + 'x" and lg :: "'x \<Rightarrow> 'e + 'y"
  shows
  "(no_error s \<and> pw (power s) = Inr x \<and> lg x = Inl ex \<longrightarrow>
      while_no_error (try_body pw lg) s =
        Some (Inr (s\<lparr>evaluated := evaluated s @ [power s], no_error := False,
                      printed := printed s @ [power s], power := power s - 1\<rparr>)))
   \<and> (while_no_error (try_body pw lg) s = Some (Inl ex') \<longrightarrow> (\<exists>p. pw p = Inl ex'))"
proof (intro conjI impI)
  assume a: "no_error s \<and> pw (power s) = Inr x \<and> lg x = Inl ex"
  then have b: "try_body pw lg s =
    Inr (s\<lparr>evaluated := evaluated s @ [power s], no_error := False,
           printed := printed s @ [power s], power := power s - 1\<rparr>)"
    using try_body_caught [of pw s x lg ex] by simp
  show "while_no_error (try_body pw lg) s =
        Some (Inr (s\<lparr>evaluated := evaluated s @ [power s], no_error := False,
                      printed := printed s @ [power s], power := power s - 1\<rparr>))"
    using a b
    by (subst while_no_error.simps, simp, subst while_no_error.simps, simp)
next
  assume "while_no_error (try_body pw lg) s = Some (Inl ex')"
  from while_Some_steps [OF this] obtain k where "loop_steps k (try_body pw lg) s = Inl ex'"
    by blast
  then show "\<exists>p. pw p = Inl ex'" by (rule loop_steps_try_Inl)
qed

theorem bare_except_catches_everything_witness:
  "no_error (running 324) \<and> int_pow 10 (power (running 324)) = Inr (PyFloat (Float 0))
   \<and> math_log (\<lambda>v. 0) (PyFloat (Float 0)) = Inl (ValueError ''math domain error'')
   \<and> while_no_error (try_body (int_pow 10) (math_log (\<lambda>v. 0))) (running 324) =
        Some (Inr ((running 324)\<lparr>evaluated := evaluated (running 324) @ [power (running 324)],
                      no_error := False,
                      printed := printed (running 324) @ [power (running 324)],
                      power := power (running 324) - 1\<rparr>))
   \<and> while_no_error (try_body (int_pow 0) (math_log (\<lambda>v. 0))) init =
        Some (Inl (ZeroDivisionError ''0.0 cannot be raised to a negative power''))
   \<and> (\<exists>p. int_pow 0 p = Inl (ZeroDivisionError ''0.0 cannot be raised to a negative power''))"
proof -
  have h: "no_error (running 324) \<and> int_pow 10 (power (running 324)) = Inr (PyFloat (Float 0))
    \<and> math_log (\<lambda>v. 0) (PyFloat (Float 0)) = Inl (ValueError ''math domain error'')"
    using int_pow_10_324 by (simp add: running_def math_log_def)
  have z: "while_no_error (try_body (int_pow 0) (math_log (\<lambda>v. 0))) init =
        Some (Inl (ZeroDivisionError ''0.0 cannot be raised to a negative power''))"
  proof -
    have "float_of_int 1 = Inr 1" using float_of_int_exact [of 1] by simp
    then have "try_verdict (int_pow 0) (math_log (\<lambda>v. 0)) (- int 0) = Passed"
      by (simp add: try_verdict_def int_pow_def math_log_def)
    moreover have "try_verdict (int_pow 0) (math_log (\<lambda>v. 0)) (- int 1)
      = Aborted (ZeroDivisionError ''0.0 cannot be raised to a negative power'')"
      using int_pow_0_minus_1 by (simp add: try_verdict_def)
    ultimately show ?thesis
      unfolding try_body_step by (intro while_first_abort [of 1]) simp_all
  qed
  from bare_except_catches_everything
    [where pw = "int_pow 10" and lg = "math_log (\<lambda>v. 0)" and s = "running 324"
      and x = "PyFloat (Float 0)" and ex = "ValueError ''math domain error''",
      THEN conjunct1] h
  have 1: "while_no_error (try_body (int_pow 10) (math_log (\<lambda>v. 0))) (running 324) =
        Some (Inr ((running 324)\<lparr>evaluated := evaluated (running 324) @ [power (running 324)],
                      no_error := False,
                      printed := printed (running 324) @ [power (running 324)],
                      power := power (running 324) - 1\<rparr>))"
    by blast
  from bare_except_catches_everything
    [where pw = "int_pow 0" and lg = "math_log (\<lambda>v. 0)" and s = init
      and ex' = "ZeroDivisionError ''0.0 cannot be raised to a negative power''",
      THEN conjunct2] z
  have 2: "\<exists>p. int_pow 0 p = Inl (ZeroDivisionError ''0.0 cannot be raised to a negative power'')"
    by blast
  from h 1 z 2 show ?thesis by blast
qed

end
